theory Spec2Isabelle
  imports Complex_Main "HOL-Library.Multiset"
begin

section \<open>Numbers\<close>

text \<open>
  A C \<^verbatim>\<open>float\<close> is an IEEE 754 binary32 number: a finite number other than zero, one
  of the two zeros, an infinity or a NaN. \<open>Finite 0\<close> is the positive zero and \<open>NegZero\<close>
  the negative one; a NaN carries its sign and payload as a number. Two floats are the
  same value of this type exactly when they have the same bytes, while the comparison
  \<^verbatim>\<open>a < b\<close> does not tell the two zeros apart. A finite float that the code computes
  is a value of \<open>round32\<close> below, or one of the constants 0, \<^verbatim>\<open>FLT_MAX\<close> and \<^verbatim>\<open>-FLT_MAX\<close>.

  A C \<^verbatim>\<open>double\<close> (a distance, a norm, \<^verbatim>\<open>sum\<close>, \<^verbatim>\<open>choice\<close>, a random draw) is a real
  number: arithmetic on doubles is exact, and there is no infinite, NaN or negative zero
  double. Every store of a double into a float goes through \<open>to_float\<close>, which rounds.
\<close>

datatype c_float = Finite real | NegZero | PosInf | NegInf | NaN nat

definition FLT_MAX :: real where
  "FLT_MAX = 340282346638528859811704183484516925440"

definition INT_MAX :: int where
  "INT_MAX = 2147483647"

text \<open>
  Rounding to the nearest float, ties to even. For \<open>0 \<le> a\<close>, \<open>exponent32 a\<close> is the
  exponent of the binade of \<open>a\<close>: the largest \<open>e\<close> with \<open>2 ^ e \<le> a\<close>, kept between
  \<open>- 126\<close> (the subnormal numbers share the spacing of the smallest binade) and \<open>127\<close>.
  The floats of that binade are the multiples of \<open>2 ^ (e - 23)\<close>, and \<open>round_pos a\<close> is the
  nearest multiple. \<open>round32\<close> is the rounding of a real number of either sign; its value
  can be \<open>2 ^ 128\<close>, which is the overflow to infinity.
\<close>

fun expo_nat :: "real \<Rightarrow> nat \<Rightarrow> nat" where
  "expo_nat a 0 = 0"
| "expo_nat a (Suc k) = (if 2 powi (int (Suc k) - 126) \<le> a then Suc k else expo_nat a k)"

definition exponent32 :: "real \<Rightarrow> int" where
  "exponent32 a = int (expo_nat a 253) - 126"

definition rne :: "real \<Rightarrow> int" where
  "rne y = (let f = \<lfloor>y\<rfloor> in
            if y - of_int f < 1 / 2 then f
            else if y - of_int f > 1 / 2 then f + 1
            else if even f then f else f + 1)"

definition round_pos :: "real \<Rightarrow> real" where
  "round_pos a = (let u = 2 powi (exponent32 a - 23) in of_int (rne (a / u)) * u)"

definition round32 :: "real \<Rightarrow> real" where
  "round32 x = (if x < 0 then - round_pos (- x) else round_pos x)"

text \<open>
  The value a double has once stored in a \<^verbatim>\<open>float\<close>: rounded to the nearest float,
  infinite when the rounded value is beyond \<^verbatim>\<open>FLT_MAX\<close>, and a zero of the sign of the
  double when it rounds to zero.
\<close>

definition to_float :: "real \<Rightarrow> c_float" where
  "to_float x =
     (let y = round32 x in
      if y > FLT_MAX then PosInf
      else if y < - FLT_MAX then NegInf
      else if y = 0 then (if x < 0 then NegZero else Finite 0)
      else Finite y)"

fun isnan :: "c_float \<Rightarrow> bool" where
  "isnan (NaN p) = True"
| "isnan _ = False"

fun isinf :: "c_float \<Rightarrow> bool" where
  "isinf PosInf = True"
| "isinf NegInf = True"
| "isinf _ = False"

text \<open>
  The number a float other than an infinity or a NaN stands for; both zeros stand for 0.
  Outside of the comparisons and of the division, which treat every case, the code
  widens a float to a double only where the float is finite (the weights of
  InitCenters).
\<close>

fun float_val :: "c_float \<Rightarrow> real" where
  "float_val (Finite r) = r"
| "float_val _ = 0"

text \<open>
  The comparisons \<^verbatim>\<open>a < b\<close> and \<^verbatim>\<open>a <= b\<close> of two floats, false whenever one of them is
  NaN, and the comparison \<^verbatim>\<open>d < b\<close> of a double with a float.
\<close>

fun float_less :: "c_float \<Rightarrow> c_float \<Rightarrow> bool" where
  "float_less (NaN p) _ = False"
| "float_less _ (NaN p) = False"
| "float_less PosInf _ = False"
| "float_less _ NegInf = False"
| "float_less NegInf _ = True"
| "float_less _ PosInf = True"
| "float_less a b = (float_val a < float_val b)"

fun float_le :: "c_float \<Rightarrow> c_float \<Rightarrow> bool" where
  "float_le (NaN p) _ = False"
| "float_le _ (NaN p) = False"
| "float_le NegInf _ = True"
| "float_le _ PosInf = True"
| "float_le PosInf _ = False"
| "float_le _ NegInf = False"
| "float_le a b = (float_val a \<le> float_val b)"

fun double_less_float :: "real \<Rightarrow> c_float \<Rightarrow> bool" where
  "double_less_float d (NaN p) = False"
| "double_less_float d PosInf = True"
| "double_less_float d NegInf = False"
| "double_less_float d b = (d < float_val b)"

text \<open>\<^verbatim>\<open>- a\<close>, \<^verbatim>\<open>a + b\<close> and \<^verbatim>\<open>a - b\<close> on floats; the sum of two finite floats is rounded.\<close>

fun float_neg :: "c_float \<Rightarrow> c_float" where
  "float_neg (Finite r) = (if r = 0 then NegZero else Finite (- r))"
| "float_neg NegZero = Finite 0"
| "float_neg PosInf = NegInf"
| "float_neg NegInf = PosInf"
| "float_neg (NaN p) = NaN p"

fun float_add :: "c_float \<Rightarrow> c_float \<Rightarrow> c_float" where
  "float_add (NaN p) _ = NaN p"
| "float_add _ (NaN p) = NaN p"
| "float_add PosInf NegInf = NaN 0"
| "float_add NegInf PosInf = NaN 0"
| "float_add PosInf _ = PosInf"
| "float_add _ PosInf = PosInf"
| "float_add NegInf _ = NegInf"
| "float_add _ NegInf = NegInf"
| "float_add NegZero NegZero = NegZero"
| "float_add a b = to_float (float_val a + float_val b)"

definition float_sub :: "c_float \<Rightarrow> c_float \<Rightarrow> c_float" where
  "float_sub a b = float_add a (float_neg b)"

text \<open>
  \<^verbatim>\<open>x /= d\<close> for a float \<^verbatim>\<open>x\<close> and a divisor \<^verbatim>\<open>d\<close> that is a norm (a double) or a
  count (converted to a float): the quotient, rounded to a float. With a double divisor
  the code rounds the quotient to a double before it rounds it to a float; the first of
  the two roundings is left out.
  The code divides only by a strictly positive \<^verbatim>\<open>d\<close>; the other cases follow IEEE 754.
\<close>

fun float_div :: "c_float \<Rightarrow> real \<Rightarrow> c_float" where
  "float_div (NaN p) d = NaN p"
| "float_div PosInf d = (if d < 0 then NegInf else PosInf)"
| "float_div NegInf d = (if d < 0 then PosInf else NegInf)"
| "float_div NegZero d = (if d = 0 then NaN 0 else if d < 0 then Finite 0 else NegZero)"
| "float_div (Finite a) d =
     (if d = 0 then (if a > 0 then PosInf else if a < 0 then NegInf else NaN 0)
      else if a = 0 then (if d < 0 then NegZero else Finite 0)
      else to_float (a / d))"

text \<open>
  An \<^verbatim>\<open>int\<close> expression whose mathematical value is \<open>x\<close>, as a 32-bit two's complement
  value (C leaves signed overflow undefined; the model wraps).
\<close>

definition int32 :: "int \<Rightarrow> int" where
  "int32 x = (x + 2147483648) mod 4294967296 - 2147483648"

section \<open>Vectors and vector arrays\<close>

text \<open>
  A \<^verbatim>\<open>Vector\<close> is its coordinates \<^verbatim>\<open>x[0..dim-1]\<close>; \<^verbatim>\<open>dim\<close> is the length of the list.
\<close>

type_synonym Vector = "c_float list"

text \<open>
  \<^verbatim>\<open>VectorArrayData\<close>: \<open>items\<close> has one slot per position below \<open>maxlen\<close>; the first
  \<open>lengthVA\<close> slots are in use (the field is \<^verbatim>\<open>length\<close> in the code).
\<close>

record VectorArray =
  lengthVA :: nat
  maxlen :: nat
  dim :: nat
  itemsize :: nat
  items :: "Vector list"

text \<open>
  Modelled from the spec: the macros \<^verbatim>\<open>VectorArrayGet\<close> and \<^verbatim>\<open>VectorArraySet\<close> of the
  header, which is not among the sources ("random access by index"). An access at or
  past \<open>maxlen\<close> is outside the buffer in C; the statements below are about arrays and
  indices for which every access is inside.
\<close>

definition VectorArrayGet :: "VectorArray \<Rightarrow> nat \<Rightarrow> Vector" where
  "VectorArrayGet arr offset = items arr ! offset"

definition VectorArraySet :: "VectorArray \<Rightarrow> nat \<Rightarrow> Vector \<Rightarrow> VectorArray" where
  "VectorArraySet arr offset val = arr\<lparr>items := (items arr)[offset := val]\<rparr>"

text \<open>
  The enum \<^verbatim>\<open>IvfflatType\<close> is declared in the header, which is not among the sources.
  The code only tests whether the type is \<^verbatim>\<open>IVFFLAT_TYPE_VECTOR\<close>;
  \<open>IVFFLAT_TYPE_OTHER\<close> stands for every other value of the enum.
\<close>

datatype IvfflatType = IVFFLAT_TYPE_VECTOR | IVFFLAT_TYPE_OTHER

text \<open>The errors the code raises with \<^verbatim>\<open>elog(ERROR, ...)\<close> and \<^verbatim>\<open>ereport(ERROR, ...)\<close>.\<close>

datatype error =
    Unsupported_type
  | Memory_required nat nat
  | Indexing_overflow
  | Not_enough_centers
  | NaN_detected
  | Infinite_value_detected
  | Duplicate_centers_detected
  | Zero_norm_detected

text \<open>
  What the code reads from outside this file: the support functions of the index
  (\<^verbatim>\<open>IVFFLAT_KMEANS_DISTANCE_PROC\<close>, the optional \<^verbatim>\<open>IVFFLAT_KMEANS_NORM_PROC\<close> and
  \<^verbatim>\<open>IVFFLAT_NORM_PROC\<close>), the random source with its state \<open>'r\<close>, the setting
  \<^verbatim>\<open>maintenance_work_mem\<close> (in kB), the macro \<^verbatim>\<open>VECTOR_ARRAY_SIZE\<close>, and the contents
  of freshly allocated memory (\<open>uninit\<close> for the float arrays and \<open>uninit_int\<close> for the
  int arrays: \<^verbatim>\<open>palloc\<close> does not clear it).
  \<^verbatim>\<open>CHECK_FOR_INTERRUPTS\<close> is modelled with no interrupt pending.
\<close>

record 'r Relation =
  kmeans_distance_proc :: "Vector \<Rightarrow> Vector \<Rightarrow> real"
  kmeans_norm_proc :: "(Vector \<Rightarrow> real) option"
  norm_proc :: "(Vector \<Rightarrow> real) option"
  RandomInt :: "'r \<Rightarrow> nat \<times> 'r"
  RandomDouble :: "'r \<Rightarrow> real \<times> 'r"
  maintenance_work_mem :: nat
  VECTOR_ARRAY_SIZE :: "nat \<Rightarrow> nat \<Rightarrow> nat"
  uninit :: "nat \<Rightarrow> c_float"
  uninit_int :: "nat \<Rightarrow> nat"

section \<open>ApplyNorm\<close>

definition ApplyNorm :: "(Vector \<Rightarrow> real) \<Rightarrow> Vector \<Rightarrow> Vector" where
  "ApplyNorm normprocinfo vec =
     (let norm = normprocinfo vec in
      if norm > 0
      then fold (\<lambda>i v. v[i := float_div (v ! i) norm]) [0..<length vec] vec
      else vec)"

section \<open>Sorting\<close>

text \<open>
  Modelled from the spec: \<^verbatim>\<open>vector_cmp_internal\<close>, which is defined in a file that is
  not among the sources ("a total order on vectors (lexicographic by dimension value)").
  Coordinates are compared with \<^verbatim>\<open>a < b\<close> and \<^verbatim>\<open>a > b\<close> from the front; when one vector is
  a prefix of the other, the shorter one is smaller.
\<close>

fun vector_cmp_internal :: "Vector \<Rightarrow> Vector \<Rightarrow> int" where
  "vector_cmp_internal [] [] = 0"
| "vector_cmp_internal [] (y # ys) = - 1"
| "vector_cmp_internal (x # xs) [] = 1"
| "vector_cmp_internal (x # xs) (y # ys) =
     (if float_less x y then - 1
      else if float_less y x then 1
      else vector_cmp_internal xs ys)"

definition CompareVectors :: "Vector \<Rightarrow> Vector \<Rightarrow> int" where
  "CompareVectors a b = vector_cmp_internal a b"

text \<open>
  \<^verbatim>\<open>qsort(base, nmemb, size, compar)\<close> of the C library sorts the first \<open>nmemb\<close> slots in
  place. The library does not fix the algorithm; the model sorts by insertion and keeps
  the order of members that compare equal. Two vectors without NaN and without negative
  zero that compare equal are the same vector, so on such vectors every sorting
  algorithm gives the same array; vectors that differ only in the sign of a zero compare
  equal, and the library does not fix their order.
\<close>

fun qsort_insert :: "('a \<Rightarrow> 'a \<Rightarrow> int) \<Rightarrow> 'a \<Rightarrow> 'a list \<Rightarrow> 'a list" where
  "qsort_insert compar x [] = [x]"
| "qsort_insert compar x (y # ys) =
     (if compar x y \<le> 0 then x # y # ys else y # qsort_insert compar x ys)"

definition qsort :: "'a list \<Rightarrow> nat \<Rightarrow> ('a \<Rightarrow> 'a \<Rightarrow> int) \<Rightarrow> 'a list" where
  "qsort base nmemb compar =
     foldr (qsort_insert compar) (take nmemb base) [] @ drop nmemb base"

text \<open>
  \<^verbatim>\<open>datumIsEqual(a, b, false, -1)\<close> compares the bytes of two vectors: two vectors have
  the same bytes when they are the same list of floats. The vectors (0.0) and (-0.0)
  differ for it, while CompareVectors gives 0 on them.
\<close>

definition datumIsEqual :: "Vector \<Rightarrow> Vector \<Rightarrow> bool" where
  "datumIsEqual a b = (a = b)"

section \<open>QuickCenters\<close>

text \<open>
  The loop \<^verbatim>\<open>for (j = 0; j < dimensions; j++) vec->x[j] = RandomDouble()\<close>: each draw is
  a double, stored in a float.
\<close>

fun random_vector :: "'r Relation \<Rightarrow> nat \<Rightarrow> 'r \<Rightarrow> Vector \<times> 'r" where
  "random_vector index 0 r = ([], r)"
| "random_vector index (Suc n) r =
     (let (u, r') = RandomDouble index r;
          (v, r'') = random_vector index n r'
      in (to_float u # v, r''))"

text \<open>Copy existing vectors while avoiding duplicates.\<close>

definition copy_distinct :: "VectorArray \<Rightarrow> VectorArray \<Rightarrow> VectorArray" where
  "copy_distinct samples centers =
     fold (\<lambda>i c.
        let vec = VectorArrayGet samples i in
        if i = 0 \<or> \<not> datumIsEqual vec (VectorArrayGet samples (i - 1))
        then (VectorArraySet c (lengthVA c) vec)\<lparr>lengthVA := lengthVA c + 1\<rparr>
        else c)
      [0..<lengthVA samples] centers"

text \<open>Fill remaining with random data.\<close>

function fill_random ::
  "'r Relation \<Rightarrow> IvfflatType \<Rightarrow> VectorArray \<Rightarrow> 'r \<Rightarrow> error + (VectorArray \<times> 'r)" where
  "fill_random index type centers r =
     (if lengthVA centers < maxlen centers then
        if type = IVFFLAT_TYPE_VECTOR then
          let (vec, r') = random_vector index (dim centers) r;
              vec' = (case kmeans_norm_proc index of
                        Some normprocinfo \<Rightarrow> ApplyNorm normprocinfo vec
                      | None \<Rightarrow> vec)
          in fill_random index type
               ((VectorArraySet centers (lengthVA centers) vec')
                  \<lparr>lengthVA := lengthVA centers + 1\<rparr>) r'
        else Inl Unsupported_type
      else Inr (centers, r))"
  by pat_completeness auto
termination
  by (relation "measure (\<lambda>(index, type, centers, r). maxlen centers - lengthVA centers)")
     (auto simp: VectorArraySet_def)

declare fill_random.simps [simp del]

definition QuickCenters ::
  "'r Relation \<Rightarrow> VectorArray \<Rightarrow> VectorArray \<Rightarrow> IvfflatType \<Rightarrow> 'r
     \<Rightarrow> error + (VectorArray \<times> VectorArray \<times> 'r)" where
  "QuickCenters index samples centers type r =
     (if lengthVA samples > 0 then
        if type = IVFFLAT_TYPE_VECTOR then
          let samples' = samples\<lparr>items := qsort (items samples) (lengthVA samples) CompareVectors\<rparr>
          in case fill_random index type (copy_distinct samples' centers) r of
               Inl e \<Rightarrow> Inl e
             | Inr (centers', r') \<Rightarrow> Inr (samples', centers', r')
        else Inl Unsupported_type
      else case fill_random index type centers r of
             Inl e \<Rightarrow> Inl e
           | Inr (centers', r') \<Rightarrow> Inr (samples, centers', r'))"

section \<open>CheckCenters\<close>

text \<open>Ensure no NaN or infinite values: the first one found, in the order of the loops.\<close>

fun check_coords :: "Vector \<Rightarrow> error option" where
  "check_coords [] = None"
| "check_coords (x # xs) =
     (if isnan x then Some NaN_detected
      else if isinf x then Some Infinite_value_detected
      else check_coords xs)"

fun check_values :: "Vector list \<Rightarrow> error option" where
  "check_values [] = None"
| "check_values (v # vs) =
     (case check_coords v of Some e \<Rightarrow> Some e | None \<Rightarrow> check_values vs)"

definition CheckCenters :: "'r Relation \<Rightarrow> VectorArray \<Rightarrow> IvfflatType \<Rightarrow> error + VectorArray" where
  "CheckCenters index centers type =
     (if lengthVA centers \<noteq> maxlen centers then Inl Not_enough_centers
      else case check_values (take (lengthVA centers) (items centers)) of
        Some e \<Rightarrow> Inl e
      | None \<Rightarrow>
          if type \<noteq> IVFFLAT_TYPE_VECTOR then Inl Unsupported_type
          else
            let centers' = centers\<lparr>items := qsort (items centers) (lengthVA centers) CompareVectors\<rparr>
            in if list_ex (\<lambda>i. datumIsEqual (VectorArrayGet centers' i) (VectorArrayGet centers' (i - 1)))
                    [1..<lengthVA centers']
               then Inl Duplicate_centers_detected
               else case norm_proc index of
                 None \<Rightarrow> Inr centers'
               | Some normprocinfo \<Rightarrow>
                   if list_ex (\<lambda>i. normprocinfo (VectorArrayGet centers' i) = 0) [0..<lengthVA centers']
                   then Inl Zero_norm_detected
                   else Inr centers')"

section \<open>InitCenters\<close>

text \<open>
  The pass over the samples for center \<open>i\<close>: the distance to the new center, a double, is
  stored in the lower bound, a float, and its square lowers the weight, a float. The
  state is the lower bounds, the weights and \<^verbatim>\<open>sum\<close>. A weight starts at \<^verbatim>\<open>FLT_MAX\<close> and
  is only replaced by a smaller number, so it is always finite.
\<close>

definition init_distances ::
  "'r Relation \<Rightarrow> VectorArray \<Rightarrow> VectorArray \<Rightarrow> nat
     \<Rightarrow> c_float list \<times> c_float list \<times> real \<Rightarrow> c_float list \<times> c_float list \<times> real" where
  "init_distances index samples centers i =
     fold (\<lambda>j (lowerBound, weight, sum).
        let distance = kmeans_distance_proc index (VectorArrayGet samples j) (VectorArrayGet centers i);
            lowerBound' = lowerBound[j * maxlen centers + i := to_float distance];
            distance2 = distance * distance;
            weight' = (if double_less_float distance2 (weight ! j)
                       then weight[j := to_float distance2] else weight)
        in (lowerBound', weight', sum + float_val (weight' ! j)))
      [0..<lengthVA samples]"

text \<open>
  The loop that walks the weights,
  \<^verbatim>\<open>for (j = 0; j < numSamples - 1; j++) { choice -= weight[j]; if (choice <= 0) break; }\<close>,
  and the value of \<^verbatim>\<open>j\<close> after it.
\<close>

function choose_sample :: "c_float list \<Rightarrow> nat \<Rightarrow> nat \<Rightarrow> real \<Rightarrow> nat" where
  "choose_sample weight numSamples j choice =
     (if j < numSamples - 1 then
        let choice' = choice - float_val (weight ! j) in
        if choice' \<le> 0 then j else choose_sample weight numSamples (j + 1) choice'
      else j)"
  by pat_completeness auto
termination
  by (relation "measure (\<lambda>(weight, numSamples, j, choice). numSamples - j)") auto

declare choose_sample.simps [simp del]

text \<open>The loop over the centers, from center \<open>i\<close> on.\<close>

function init_loop ::
  "'r Relation \<Rightarrow> VectorArray \<Rightarrow> nat \<Rightarrow> VectorArray \<Rightarrow> c_float list \<Rightarrow> c_float list \<Rightarrow> 'r
     \<Rightarrow> VectorArray \<times> c_float list \<times> c_float list \<times> 'r" where
  "init_loop index samples i centers lowerBound weight r =
     (if i < maxlen centers then
        let (lowerBound', weight', sum) =
              init_distances index samples centers i (lowerBound, weight, 0)
        in if i + 1 = maxlen centers then (centers, lowerBound', weight', r)
           else
             let (u, r') = RandomDouble index r;
                 choice = sum * u;
                 j = choose_sample weight' (lengthVA samples) 0 choice
             in init_loop index samples (i + 1)
                  ((VectorArraySet centers (i + 1) (VectorArrayGet samples j))
                     \<lparr>lengthVA := lengthVA centers + 1\<rparr>)
                  lowerBound' weight' r'
      else (centers, lowerBound, weight, r))"
  by pat_completeness auto
termination
  by (relation "measure (\<lambda>(index, samples, i, centers, lowerBound, weight, r). maxlen centers - i)")
     (auto simp: VectorArraySet_def)

declare init_loop.simps [simp del]

text \<open>
  \<^verbatim>\<open>RandomInt() % samples->length\<close> divides by zero when there is no sample; the
  function is called with at least one.
\<close>

definition InitCenters ::
  "'r Relation \<Rightarrow> VectorArray \<Rightarrow> VectorArray \<Rightarrow> c_float list \<Rightarrow> 'r
     \<Rightarrow> VectorArray \<times> c_float list \<times> 'r" where
  "InitCenters index samples centers lowerBound r =
     (let (n, r1) = RandomInt index r;
          centers1 = (VectorArraySet centers 0 (VectorArrayGet samples (n mod lengthVA samples)))
                       \<lparr>lengthVA := lengthVA centers + 1\<rparr>;
          weight = replicate (lengthVA samples) (Finite FLT_MAX);
          (centers2, lowerBound2, weight2, r2) =
             init_loop index samples 0 centers1 lowerBound weight r1
      in (centers2, lowerBound2, r2))"

section \<open>ElkanKmeans\<close>

text \<open>
  The arrays of ElkanKmeans, the centers and the state of the random source. The bound
  arrays are arrays of floats ("use float instead of double to save memory").
\<close>

record 'r Elkan =
  e_centers :: VectorArray
  e_newCenters :: VectorArray
  e_centerCounts :: "nat list"
  e_closestCenters :: "nat list"
  e_lowerBound :: "c_float list"
  e_upperBound :: "c_float list"
  e_s :: "c_float list"
  e_halfcdist :: "c_float list"
  e_newcdist :: "c_float list"
  e_rng :: 'r

text \<open>
  Modelled from the spec: \<^verbatim>\<open>VectorArrayInit\<close>, defined in a file that is not among the
  sources ("fixed-capacity, length-tracking container of same-dimension float vectors").
  The loop after the call sets the dimension of every slot.
\<close>

definition VectorArrayInit :: "nat \<Rightarrow> nat \<Rightarrow> nat \<Rightarrow> VectorArray" where
  "VectorArrayInit maxlen' dimensions itemsize' =
     \<lparr>lengthVA = 0, maxlen = maxlen', dim = dimensions, itemsize = itemsize',
      items = replicate maxlen' (replicate dimensions (Finite 0))\<rparr>"

text \<open>Assign each sample to its closest initial center.\<close>

definition initial_assignment ::
  "nat \<Rightarrow> nat \<Rightarrow> c_float list \<Rightarrow> c_float list \<times> nat list \<Rightarrow> c_float list \<times> nat list" where
  "initial_assignment numSamples numCenters lowerBound =
     fold (\<lambda>j (upperBound, closestCenters).
        let (minDistance, closestCenter) =
              fold (\<lambda>k (minDistance, closestCenter).
                 let distance = lowerBound ! (j * numCenters + k) in
                 if float_less distance minDistance then (distance, k)
                 else (minDistance, closestCenter))
               [0..<numCenters] (Finite FLT_MAX, 0)
        in (upperBound[j := minDistance], closestCenters[j := closestCenter]))
      [0..<numSamples]"

text \<open>Step 1: for all centers, compute distance; half of it is stored in a float.\<close>

definition compute_halfcdist :: "'r Relation \<Rightarrow> VectorArray \<Rightarrow> c_float list \<Rightarrow> c_float list" where
  "compute_halfcdist index centers =
     fold (\<lambda>j. fold (\<lambda>k halfcdist.
        let distance = to_float (0.5 * kmeans_distance_proc index (VectorArrayGet centers j)
                                         (VectorArrayGet centers k))
        in halfcdist[j * maxlen centers + k := distance, k * maxlen centers + j := distance])
        [j + 1..<maxlen centers])
      [0..<maxlen centers]"

text \<open>For all centers c, compute s(c).\<close>

definition compute_s :: "nat \<Rightarrow> c_float list \<Rightarrow> c_float list \<Rightarrow> c_float list" where
  "compute_s numCenters halfcdist =
     fold (\<lambda>j s.
        let minDistance =
              fold (\<lambda>k minDistance.
                 if j = k then minDistance
                 else let distance = halfcdist ! (j * numCenters + k) in
                      if float_less distance minDistance then distance else minDistance)
               [0..<numCenters] (Finite FLT_MAX)
        in s[j := minDistance])
      [0..<numCenters]"

text \<open>
  The index \<^verbatim>\<open>closestCenters[j] * numCenters + k\<close> into \<^verbatim>\<open>halfcdist\<close>: the product is an
  \<^verbatim>\<open>int\<close> product. It stays within \<^verbatim>\<open>int\<close> up to 46341 centers. From 46342 centers on
  it can wrap to a negative index, which is outside the array in C; the model reads
  slot 0 there, and the statements about the bounds are for at most 46340 centers.
\<close>

definition halfcdist_index :: "nat \<Rightarrow> nat \<Rightarrow> nat \<Rightarrow> nat" where
  "halfcdist_index closestCenter numCenters k =
     nat (int32 (int closestCenter * int numCenters) + int k)"

text \<open>
  Step 3 for sample \<open>j\<close> and center \<open>k\<close>. The state is the lower bounds, the upper bounds,
  the assignment, \<^verbatim>\<open>changes\<close> and the flag \<^verbatim>\<open>rj\<close>. The locals \<^verbatim>\<open>dxcx\<close> and \<^verbatim>\<open>dxc\<close> are
  floats: each distance is rounded when it is stored in them. The test \<^verbatim>\<open>a > b\<close> is
  \<^verbatim>\<open>b < a\<close>.
\<close>

definition step3 ::
  "'r Relation \<Rightarrow> VectorArray \<Rightarrow> VectorArray \<Rightarrow> c_float list \<Rightarrow> nat \<Rightarrow> nat
     \<Rightarrow> c_float list \<times> c_float list \<times> nat list \<times> int \<times> bool
     \<Rightarrow> c_float list \<times> c_float list \<times> nat list \<times> int \<times> bool" where
  "step3 index samples centers halfcdist j k =
     (\<lambda>(lowerBound, upperBound, closestCenters, changes, rj).
        let numCenters = maxlen centers in
        if k = closestCenters ! j then (lowerBound, upperBound, closestCenters, changes, rj)
        else if float_le (upperBound ! j) (lowerBound ! (j * numCenters + k))
          then (lowerBound, upperBound, closestCenters, changes, rj)
        else if float_le (upperBound ! j)
                  (halfcdist ! halfcdist_index (closestCenters ! j) numCenters k)
          then (lowerBound, upperBound, closestCenters, changes, rj)
        else
          let vec = VectorArrayGet samples j;
              (dxcx, lowerBound1, upperBound1) =
                (if rj then
                   let d = to_float (kmeans_distance_proc index vec
                                       (VectorArrayGet centers (closestCenters ! j)))
                   in (d, lowerBound[j * numCenters + closestCenters ! j := d], upperBound[j := d])
                 else (upperBound ! j, lowerBound, upperBound))
          in if float_less (lowerBound1 ! (j * numCenters + k)) dxcx
                \<or> float_less (halfcdist ! halfcdist_index (closestCenters ! j) numCenters k) dxcx
             then
               let dxc = to_float (kmeans_distance_proc index vec (VectorArrayGet centers k));
                   lowerBound2 = lowerBound1[j * numCenters + k := dxc]
               in if float_less dxc dxcx
                  then (lowerBound2, upperBound1[j := dxc], closestCenters[j := k],
                        int32 (changes + 1), False)
                  else (lowerBound2, upperBound1, closestCenters, changes, False)
             else (lowerBound1, upperBound1, closestCenters, changes, False))"

text \<open>Steps 2 and 3 for sample \<open>j\<close>.\<close>

definition step2 ::
  "'r Relation \<Rightarrow> VectorArray \<Rightarrow> VectorArray \<Rightarrow> c_float list \<Rightarrow> c_float list \<Rightarrow> bool \<Rightarrow> nat
     \<Rightarrow> c_float list \<times> c_float list \<times> nat list \<times> int
     \<Rightarrow> c_float list \<times> c_float list \<times> nat list \<times> int" where
  "step2 index samples centers halfcdist s rjreset j =
     (\<lambda>(lowerBound, upperBound, closestCenters, changes).
        if float_le (upperBound ! j) (s ! (closestCenters ! j))
        then (lowerBound, upperBound, closestCenters, changes)
        else
          let (lowerBound', upperBound', closestCenters', changes', rj) =
                fold (step3 index samples centers halfcdist j) [0..<maxlen centers]
                  (lowerBound, upperBound, closestCenters, changes, rjreset)
          in (lowerBound', upperBound', closestCenters', changes'))"

text \<open>
  Step 4: for each center, the mean of all points assigned to it. The sums are float
  sums. In \<^verbatim>\<open>vec->x[k] /= centerCounts[j]\<close> the count, an \<^verbatim>\<open>int\<close>, is converted to a
  float and the division is a float division.
\<close>

definition reset_means :: "nat \<Rightarrow> VectorArray \<times> nat list \<Rightarrow> VectorArray \<times> nat list" where
  "reset_means numCenters =
     fold (\<lambda>j (newCenters, centerCounts).
        let vec = VectorArrayGet newCenters j;
            vec' = fold (\<lambda>k v. v[k := Finite 0]) [0..<dim newCenters] vec
        in (VectorArraySet newCenters j vec', centerCounts[j := 0]))
      [0..<numCenters]"

definition sum_samples ::
  "VectorArray \<Rightarrow> nat list \<Rightarrow> VectorArray \<times> nat list \<Rightarrow> VectorArray \<times> nat list" where
  "sum_samples samples closestCenters =
     fold (\<lambda>j (newCenters, centerCounts).
        let closestCenter = closestCenters ! j;
            vec = VectorArrayGet samples j;
            newCenter = VectorArrayGet newCenters closestCenter;
            newCenter' = fold (\<lambda>k v. v[k := float_add (v ! k) (vec ! k)]) [0..<dim newCenters] newCenter
        in (VectorArraySet newCenters closestCenter newCenter',
            centerCounts[closestCenter := centerCounts ! closestCenter + 1]))
      [0..<lengthVA samples]"

definition finish_means ::
  "'r Relation \<Rightarrow> nat \<Rightarrow> nat list \<Rightarrow> VectorArray \<times> 'r \<Rightarrow> VectorArray \<times> 'r" where
  "finish_means index numCenters centerCounts =
     fold (\<lambda>j (newCenters, r).
        let vec = VectorArrayGet newCenters j;
            dimensions = dim newCenters;
            (vec1, r1) =
              (if centerCounts ! j > 0 then
                 let v1 = fold (\<lambda>k v.
                            if isinf (v ! k)
                            then v[k := (if float_less (Finite 0) (v ! k) then Finite FLT_MAX
                                         else Finite (- FLT_MAX))]
                            else v) [0..<dimensions] vec;
                     v2 = fold (\<lambda>k v. v[k := float_div (v ! k) (round32 (real (centerCounts ! j)))])
                            [0..<dimensions] v1
                 in (v2, r)
               else random_vector index dimensions r);
            vec2 = (case kmeans_norm_proc index of
                      Some normprocinfo \<Rightarrow> ApplyNorm normprocinfo vec1
                    | None \<Rightarrow> vec1)
        in (VectorArraySet newCenters j vec2, r1))
      [0..<numCenters]"

text \<open>
  Step 5: the distance each center moves, stored in a float, and the lower bounds
  lowered by it with a float subtraction.
\<close>

definition compute_newcdist ::
  "'r Relation \<Rightarrow> VectorArray \<Rightarrow> VectorArray \<Rightarrow> c_float list \<Rightarrow> c_float list" where
  "compute_newcdist index centers newCenters =
     fold (\<lambda>j newcdist.
        newcdist[j := to_float (kmeans_distance_proc index (VectorArrayGet centers j)
                                  (VectorArrayGet newCenters j))])
      [0..<maxlen centers]"

definition step5 :: "nat \<Rightarrow> nat \<Rightarrow> c_float list \<Rightarrow> c_float list \<Rightarrow> c_float list" where
  "step5 numSamples numCenters newcdist =
     fold (\<lambda>j. fold (\<lambda>k lowerBound.
        let distance = float_sub (lowerBound ! (j * numCenters + k)) (newcdist ! k);
            distance' = (if float_less distance (Finite 0) then Finite 0 else distance)
        in lowerBound[j * numCenters + k := distance'])
        [0..<numCenters])
      [0..<numSamples]"

text \<open>
  Step 6: the upper bounds raised by the distance the assigned center moves, with a float
  addition.
\<close>

definition step6 :: "nat \<Rightarrow> c_float list \<Rightarrow> nat list \<Rightarrow> c_float list \<Rightarrow> c_float list" where
  "step6 numSamples newcdist closestCenters =
     fold (\<lambda>j upperBound.
        upperBound[j := float_add (upperBound ! j) (newcdist ! (closestCenters ! j))])
      [0..<numSamples]"

text \<open>Step 7: the new centers become the centers.\<close>

definition step7 :: "VectorArray \<Rightarrow> VectorArray \<Rightarrow> VectorArray" where
  "step7 newCenters centers =
     fold (\<lambda>j c. VectorArraySet c j (VectorArrayGet newCenters j)) [0..<maxlen centers] centers"

text \<open>The state after Steps 1 to 3 of one pass, and the value of \<^verbatim>\<open>changes\<close>.\<close>

definition elkan_assign :: "'r Relation \<Rightarrow> VectorArray \<Rightarrow> nat \<Rightarrow> 'r Elkan \<Rightarrow> int \<times> 'r Elkan" where
  "elkan_assign index samples iteration st =
     (let numCenters = maxlen (e_centers st);
          halfcdist = compute_halfcdist index (e_centers st) (e_halfcdist st);
          s = compute_s numCenters halfcdist (e_s st);
          rjreset = (iteration \<noteq> 0);
          (lowerBound, upperBound, closestCenters, changes) =
            fold (step2 index samples (e_centers st) halfcdist s rjreset) [0..<lengthVA samples]
              (e_lowerBound st, e_upperBound st, e_closestCenters st, 0)
      in (changes,
          st\<lparr>e_halfcdist := halfcdist, e_s := s, e_lowerBound := lowerBound,
             e_upperBound := upperBound, e_closestCenters := closestCenters\<rparr>))"

text \<open>Steps 4 to 7 of one pass.\<close>

definition elkan_update :: "'r Relation \<Rightarrow> VectorArray \<Rightarrow> 'r Elkan \<Rightarrow> 'r Elkan" where
  "elkan_update index samples st =
     (let numCenters = maxlen (e_centers st);
          numSamples = lengthVA samples;
          (newCenters0, centerCounts0) = reset_means numCenters (e_newCenters st, e_centerCounts st);
          (newCenters1, centerCounts) =
            sum_samples samples (e_closestCenters st) (newCenters0, centerCounts0);
          (newCenters, r) = finish_means index numCenters centerCounts (newCenters1, e_rng st);
          newcdist = compute_newcdist index (e_centers st) newCenters (e_newcdist st);
          lowerBound = step5 numSamples numCenters newcdist (e_lowerBound st);
          upperBound = step6 numSamples newcdist (e_closestCenters st) (e_upperBound st);
          centers = step7 newCenters (e_centers st)
      in st\<lparr>e_centers := centers, e_newCenters := newCenters, e_centerCounts := centerCounts,
            e_lowerBound := lowerBound, e_upperBound := upperBound, e_newcdist := newcdist,
            e_rng := r\<rparr>)"

text \<open>One pass of the loop: the value of \<^verbatim>\<open>changes\<close> at its end, and the state.\<close>

definition elkan_iteration :: "'r Relation \<Rightarrow> VectorArray \<Rightarrow> nat \<Rightarrow> 'r Elkan \<Rightarrow> int \<times> 'r Elkan" where
  "elkan_iteration index samples iteration st =
     (let (changes, st') = elkan_assign index samples iteration st
      in (changes, elkan_update index samples st'))"

text \<open>Give 500 iterations to converge.\<close>

function elkan_loop :: "'r Relation \<Rightarrow> VectorArray \<Rightarrow> nat \<Rightarrow> 'r Elkan \<Rightarrow> 'r Elkan" where
  "elkan_loop index samples iteration st =
     (if iteration < 500 then
        let (changes, st') = elkan_iteration index samples iteration st in
        if changes = 0 \<and> iteration \<noteq> 0 then st'
        else elkan_loop index samples (iteration + 1) st'
      else st)"
  by pat_completeness auto
termination
  by (relation "measure (\<lambda>(index, samples, iteration, st). 500 - iteration)") auto

declare elkan_loop.simps [simp del]

text \<open>
  The total of the allocation sizes, in \<^verbatim>\<open>Size\<close> (64-bit unsigned) arithmetic.
  \<^verbatim>\<open>sizeof(int)\<close> and \<^verbatim>\<open>sizeof(float)\<close> are 4.
\<close>

definition totalSize :: "'r Relation \<Rightarrow> VectorArray \<Rightarrow> VectorArray \<Rightarrow> nat" where
  "totalSize index samples centers =
     (let numCenters = maxlen centers;
          numSamples = lengthVA samples;
          samplesSize = VECTOR_ARRAY_SIZE index (maxlen samples) (itemsize samples);
          centersSize = VECTOR_ARRAY_SIZE index (maxlen centers) (itemsize centers);
          newCentersSize = VECTOR_ARRAY_SIZE index numCenters (itemsize centers);
          centerCountsSize = 4 * numCenters;
          closestCentersSize = 4 * numSamples;
          lowerBoundSize = 4 * numSamples * numCenters;
          upperBoundSize = 4 * numSamples;
          sSize = 4 * numCenters;
          halfcdistSize = 4 * numCenters * numCenters;
          newcdistSize = 4 * numCenters
      in (samplesSize + centersSize + newCentersSize + centerCountsSize + closestCentersSize
          + lowerBoundSize + upperBoundSize + sSize + halfcdistSize + newcdistSize)
         mod 2 ^ 64)"

text \<open>
  The state on entry to the loop: the arrays as allocated, the centers picked by
  InitCenters and every sample assigned to its closest initial center.
\<close>

definition elkan_init :: "'r Relation \<Rightarrow> VectorArray \<Rightarrow> VectorArray \<Rightarrow> 'r \<Rightarrow> 'r Elkan" where
  "elkan_init index samples centers r =
     (let dimensions = dim centers;
          numCenters = maxlen centers;
          numSamples = lengthVA samples;
          centerCounts = map (uninit_int index) [0..<numCenters];
          closestCenters = map (uninit_int index) [0..<numSamples];
          lowerBound = map (uninit index) [0..<numSamples * numCenters];
          upperBound = map (uninit index) [0..<numSamples];
          s = map (uninit index) [0..<numCenters];
          halfcdist = map (uninit index) [0..<numCenters * numCenters];
          newcdist = map (uninit index) [0..<numCenters];
          newCenters = VectorArrayInit numCenters dimensions (itemsize centers);
          (centers', lowerBound', r') = InitCenters index samples centers lowerBound r;
          (upperBound', closestCenters') =
             initial_assignment numSamples numCenters lowerBound' (upperBound, closestCenters)
      in \<lparr>e_centers = centers', e_newCenters = newCenters, e_centerCounts = centerCounts,
          e_closestCenters = closestCenters', e_lowerBound = lowerBound',
          e_upperBound = upperBound', e_s = s, e_halfcdist = halfcdist,
          e_newcdist = newcdist, e_rng = r'\<rparr>)"

text \<open>
  The test \<^verbatim>\<open>numCenters * numCenters > INT_MAX\<close>: both operands are \<^verbatim>\<open>int\<close>, and so is
  the product that is compared.
\<close>

definition indexing_overflows :: "nat \<Rightarrow> bool" where
  "indexing_overflows numCenters \<longleftrightarrow> int32 (int numCenters * int numCenters) > INT_MAX"

definition ElkanKmeans ::
  "'r Relation \<Rightarrow> VectorArray \<Rightarrow> VectorArray \<Rightarrow> IvfflatType \<Rightarrow> 'r
     \<Rightarrow> error + (VectorArray \<times> VectorArray \<times> 'r)" where
  "ElkanKmeans index samples centers type r =
     (if totalSize index samples centers > (maintenance_work_mem index * 1024) mod 2 ^ 64
      then Inl (Memory_required (totalSize index samples centers div (1024 * 1024) + 1)
                  (maintenance_work_mem index div 1024))
      else if indexing_overflows (maxlen centers) then Inl Indexing_overflow
      else
        let st = elkan_loop index samples 0 (elkan_init index samples centers r)
        in Inr (samples, e_centers st, e_rng st))"

section \<open>IvfflatKmeans\<close>

definition IvfflatKmeans ::
  "'r Relation \<Rightarrow> VectorArray \<Rightarrow> VectorArray \<Rightarrow> IvfflatType \<Rightarrow> 'r
     \<Rightarrow> error + (VectorArray \<times> VectorArray \<times> 'r)" where
  "IvfflatKmeans index samples centers type r =
     (case (if lengthVA samples \<le> maxlen centers
            then QuickCenters index samples centers type r
            else ElkanKmeans index samples centers type r) of
        Inl e \<Rightarrow> Inl e
      | Inr (samples', centers', r') \<Rightarrow>
          (case CheckCenters index centers' type of
             Inl e \<Rightarrow> Inl e
           | Inr centers'' \<Rightarrow> Inr (samples', centers'', r')))"

section \<open>Notions used in the statements\<close>





text \<open>The driver as the specification words it: train, then CheckCenters.\<close>

definition then_CheckCenters ::
  "'r Relation \<Rightarrow> IvfflatType \<Rightarrow> error + (VectorArray \<times> VectorArray \<times> 'r)
     \<Rightarrow> error + (VectorArray \<times> VectorArray \<times> 'r)" where
  "then_CheckCenters index type trained =
     (case trained of
        Inl e \<Rightarrow> Inl e
      | Inr (samples', centers', r') \<Rightarrow>
          (case CheckCenters index centers' type of
             Inl e \<Rightarrow> Inl e
           | Inr centers'' \<Rightarrow> Inr (samples', centers'', r')))"

text \<open>
  A vector none of whose coordinates is NaN: on such vectors the comparison is a total
  preorder. A vector none of whose coordinates is the negative zero: on such vectors
  without NaN, two vectors that compare equal are the same vector.
\<close>

definition no_nan :: "Vector \<Rightarrow> bool" where
  "no_nan v = list_all (\<lambda>x. \<not> isnan x) v"

definition no_negzero :: "Vector \<Rightarrow> bool" where
  "no_negzero v = list_all (\<lambda>x. x \<noteq> NegZero) v"

definition vec_le :: "Vector \<Rightarrow> Vector \<Rightarrow> bool" where
  "vec_le a b \<longleftrightarrow> CompareVectors a b \<le> 0"

definition vec_less :: "Vector \<Rightarrow> Vector \<Rightarrow> bool" where
  "vec_less a b \<longleftrightarrow> CompareVectors a b < 0"

definition isort :: "Vector list \<Rightarrow> Vector list" where
  "isort xs = foldr (qsort_insert CompareVectors) xs []"

text \<open>
  The centers in use in the order CheckCenters sorts them, and the test of its loop over
  the sorted array: some slot holds the same bytes as the slot before it.
\<close>

definition sorted_centers :: "VectorArray \<Rightarrow> Vector list" where
  "sorted_centers centers = isort (take (lengthVA centers) (items centers))"

definition adjacent_duplicate :: "Vector list \<Rightarrow> bool" where
  "adjacent_duplicate xs = list_ex (\<lambda>i. datumIsEqual (xs ! i) (xs ! (i - 1))) [1..<length xs]"


text \<open>
  What the loop of InitCenters leaves when it starts at center \<open>i\<close>: the centers up to
  \<open>i\<close> are kept, the later ones are samples, and every lower bound is the distance from
  its sample to its center, rounded to a float.
\<close>

definition init_post ::
  "'r Relation \<Rightarrow> VectorArray \<Rightarrow> nat \<Rightarrow> VectorArray \<Rightarrow> c_float list \<Rightarrow> VectorArray
     \<Rightarrow> c_float list \<Rightarrow> bool" where
  "init_post index samples i centers lowerBound centers' lowerBound' \<longleftrightarrow>
     maxlen centers' = maxlen centers \<and> length (items centers') = maxlen centers \<and>
     dim centers' = dim centers \<and> itemsize centers' = itemsize centers \<and>
     lengthVA centers' = lengthVA centers + (maxlen centers - 1 - i) \<and>
     length lowerBound' = length lowerBound \<and>
     (\<forall>i' \<le> i. items centers' ! i' = items centers ! i') \<and>
     (\<forall>i'. i < i' \<and> i' < maxlen centers \<longrightarrow>
         (\<exists>j. j \<le> lengthVA samples - 1 \<and> items centers' ! i' = items samples ! j)) \<and>
     (\<forall>i' < maxlen centers. \<forall>j < lengthVA samples.
         lowerBound' ! (j * maxlen centers + i')
           = to_float (kmeans_distance_proc index (items samples ! j) (items centers' ! i')))"

section \<open>Example inputs\<close>

text \<open>
  Vectors on a line: the distance of two vectors is the distance of their first
  coordinates. The random source counts its draws.
\<close>

definition first_coord :: "Vector \<Rightarrow> real" where
  "first_coord v = (case v of Finite x # _ \<Rightarrow> x | _ \<Rightarrow> 0)"

definition line_distance :: "Vector \<Rightarrow> Vector \<Rightarrow> real" where
  "line_distance a b = \<bar>first_coord a - first_coord b\<bar>"

definition example_index :: "nat Relation" where
  "example_index =
     \<lparr>kmeans_distance_proc = line_distance, kmeans_norm_proc = None, norm_proc = None,
      RandomInt = (\<lambda>r. (r, r + 1)), RandomDouble = (\<lambda>r. (1 / 2, r + 1)),
      maintenance_work_mem = 65536, VECTOR_ARRAY_SIZE = (\<lambda>n size. 24 + n * size),
      uninit = (\<lambda>i. Finite 0), uninit_int = (\<lambda>i. 0)\<rparr>"

definition example_array :: "nat \<Rightarrow> Vector list \<Rightarrow> VectorArray" where
  "example_array n vs = \<lparr>lengthVA = n, maxlen = length vs, dim = 1, itemsize = 16, items = vs\<rparr>"




text \<open>The samples (1) and (2 ^ - 30): both are floats, and their distance is not.\<close>

definition close_samples :: VectorArray where
  "close_samples = example_array 2 [[Finite 1], [Finite (1 / 2 ^ 30)]]"

section \<open>Notions used in the statements about ElkanKmeans\<close>

text \<open>
  The state at the start of pass \<open>n\<close> of the loop when the loop gets there, the value of
  \<^verbatim>\<open>changes\<close> at the end of pass \<open>n\<close>, and the test that ends the loop after pass \<open>n\<close>.
\<close>

primrec elkan_pass :: "'r Relation \<Rightarrow> VectorArray \<Rightarrow> 'r Elkan \<Rightarrow> nat \<Rightarrow> 'r Elkan" where
  "elkan_pass index samples st0 0 = st0"
| "elkan_pass index samples st0 (Suc n) =
     snd (elkan_iteration index samples n (elkan_pass index samples st0 n))"

definition changes_in_pass :: "'r Relation \<Rightarrow> VectorArray \<Rightarrow> 'r Elkan \<Rightarrow> nat \<Rightarrow> int" where
  "changes_in_pass index samples st0 n =
     fst (elkan_iteration index samples n (elkan_pass index samples st0 n))"

definition stops_after :: "'r Relation \<Rightarrow> VectorArray \<Rightarrow> 'r Elkan \<Rightarrow> nat \<Rightarrow> bool" where
  "stops_after index samples st0 n \<longleftrightarrow> changes_in_pass index samples st0 n = 0 \<and> n \<noteq> 0"






text \<open>
  The state on entry to the loop for the samples (0) and (4) and one center, and the state
  after the first pass.
\<close>

definition example_state :: "nat Elkan" where
  "example_state = \<lparr>e_centers = example_array 1 [[Finite 0]],
     e_newCenters = \<lparr>lengthVA = 0, maxlen = 1, dim = 1, itemsize = 16, items = [[Finite 0]]\<rparr>,
     e_centerCounts = [0], e_closestCenters = [0, 0], e_lowerBound = [Finite 0, Finite 4],
     e_upperBound = [Finite 0, Finite 4], e_s = [Finite 0], e_halfcdist = [Finite 0],
     e_newcdist = [Finite 0], e_rng = 1\<rparr>"

definition example_state_1 :: "nat Elkan" where
  "example_state_1 = \<lparr>e_centers = example_array 1 [[Finite 2]],
     e_newCenters = \<lparr>lengthVA = 0, maxlen = 1, dim = 1, itemsize = 16, items = [[Finite 2]]\<rparr>,
     e_centerCounts = [2], e_closestCenters = [0, 0], e_lowerBound = [Finite 0, Finite 2],
     e_upperBound = [Finite 2, Finite 6], e_s = [Finite FLT_MAX], e_halfcdist = [Finite 0],
     e_newcdist = [Finite 2], e_rng = 1\<rparr>"


section \<open>Properties of rounding\<close>

lemma expo_nat_spec:
  "expo_nat a k \<le> k \<and>
   (expo_nat a k = 0 \<or> 2 powi (int (expo_nat a k) - 126) \<le> a) \<and>
   (\<forall>m. expo_nat a k < m \<and> m \<le> k \<longrightarrow> a < 2 powi (int m - 126))"
proof (induction k)
  case 0
  then show ?case by simp
next
  case (Suc k)
  show ?case
  proof (cases "2 powi (int (Suc k) - 126) \<le> a")
    case True
    then show ?thesis by simp
  next
    case False
    have "a < 2 powi (int m - 126)" if "expo_nat a k < m" "m \<le> Suc k" for m
    proof (cases "m = Suc k")
      case True
      then show ?thesis using False by simp
    next
      case F: False
      then show ?thesis using Suc that by simp
    qed
    then show ?thesis using False Suc by auto
  qed
qed

lemma exponent32_range: "- 126 \<le> exponent32 a" "exponent32 a \<le> 127"
  using expo_nat_spec [of a 253] by (simp_all add: exponent32_def)

lemma exponent32_lower: "- 126 < exponent32 a \<Longrightarrow> 2 powi exponent32 a \<le> a"
  using expo_nat_spec [of a 253] by (auto simp: exponent32_def)

lemma exponent32_upper:
  assumes "exponent32 a < 127"
  shows "a < 2 powi (exponent32 a + 1)"
proof -
  let ?r = "expo_nat a 253"
  have r: "?r < 253" using assms by (simp add: exponent32_def)
  then have "a < 2 powi (int (Suc ?r) - 126)"
    using expo_nat_spec [of a 253] by (metis Suc_leI lessI)
  moreover have "int (Suc ?r) - 126 = exponent32 a + 1" by (simp add: exponent32_def)
  ultimately show ?thesis by (simp add: add.commute)
qed

lemma exponent32_eqI:
  assumes "- 126 \<le> e" "e \<le> 127" "e = - 126 \<or> 2 powi e \<le> a" "e = 127 \<or> a < 2 powi (e + 1)"
  shows "exponent32 a = e"
proof (rule ccontr)
  assume ne: "exponent32 a \<noteq> e"
  have mono: "(2::real) powi i \<le> 2 powi j" if "i \<le> j" for i j :: int
    using that by (simp add: power_int_increasing)
  show False
  proof (cases "exponent32 a < e")
    case True
    then have "exponent32 a < 127" using assms(2) by simp
    then have "a < 2 powi (exponent32 a + 1)" by (rule exponent32_upper)
    also have "\<dots> \<le> 2 powi e" using True by (intro mono) simp
    finally have "a < 2 powi e" .
    moreover have "e \<noteq> - 126" using True exponent32_range(1) [of a] by simp
    ultimately show False using assms(3) by simp
  next
    case False
    then have gt: "e < exponent32 a" using ne by simp
    then have "- 126 < exponent32 a" using assms(1) by simp
    then have "2 powi exponent32 a \<le> a" by (rule exponent32_lower)
    moreover have "(2::real) powi (e + 1) \<le> 2 powi exponent32 a" using gt by (intro mono) simp
    ultimately have "2 powi (e + 1) \<le> a" by simp
    moreover have "e \<noteq> 127" using gt exponent32_range(2) [of a] by simp
    ultimately show False using assms(4) by simp
  qed
qed








lemma round_pos_eval:
  assumes "- 126 \<le> e" "e \<le> 127" "e = - 126 \<or> 2 powi e \<le> a" "e = 127 \<or> a < 2 powi (e + 1)"
  shows "round_pos a = of_int (rne (a / 2 powi (e - 23))) * 2 powi (e - 23)"
  using exponent32_eqI [OF assms] by (simp add: round_pos_def Let_def)

lemma round_pos_0: "round_pos 0 = 0"
  by (simp add: round_pos_def Let_def rne_def)

lemma round_pos_1: "round_pos 1 = 1"
  using round_pos_eval [of 0 1] by (simp add: rne_def)

lemma round_pos_2: "round_pos 2 = 2"
  using round_pos_eval [of 1 2] by (simp add: rne_def)

lemma round32_0: "round32 0 = 0"
  by (simp add: round32_def round_pos_0)

lemma round32_1: "round32 1 = 1"
  by (simp add: round32_def round_pos_1)

lemma round32_2: "round32 2 = 2"
  by (simp add: round32_def round_pos_2)

lemma to_float_0: "to_float 0 = Finite 0"
  by (simp add: to_float_def round32_0 FLT_MAX_def)

lemma to_float_1: "to_float 1 = Finite 1"
  by (simp add: to_float_def round32_1 FLT_MAX_def)

lemma to_float_2: "to_float 2 = Finite 2"
  by (simp add: to_float_def round32_2 FLT_MAX_def)

lemma to_float_3: "to_float 3 = Finite 3"
  using round_pos_eval [of 1 3] by (simp add: to_float_def round32_def rne_def FLT_MAX_def)

lemma to_float_4: "to_float 4 = Finite 4"
  using round_pos_eval [of 2 4] by (simp add: to_float_def round32_def rne_def FLT_MAX_def)

lemma to_float_6: "to_float 6 = Finite 6"
  using round_pos_eval [of 2 6] by (simp add: to_float_def round32_def rne_def FLT_MAX_def)

lemma to_float_neg_2: "to_float (- 2) = Finite (- 2)"
  by (simp add: to_float_def round32_def round_pos_2 FLT_MAX_def)

lemma to_float_half: "to_float (1 / 2) = Finite (1 / 2)"
  using round_pos_eval [of "- 1" "1 / 2"] by (simp add: to_float_def round32_def rne_def FLT_MAX_def)

lemma to_float_3_halves: "to_float (3 / 2) = Finite (3 / 2)"
  using round_pos_eval [of 0 "3 / 2"] by (simp add: to_float_def round32_def rne_def FLT_MAX_def)

lemma to_float_near_1: "to_float (1073741823 / 1073741824) = Finite 1"
  using round_pos_eval [of "- 1" "1073741823 / 1073741824"]
  by (simp add: to_float_def round32_def rne_def FLT_MAX_def)

lemma to_float_near_1_double: "to_float (9007199254740991 / 9007199254740992) = Finite 1"
  using round_pos_eval [of "- 1" "9007199254740991 / 9007199254740992"]
  by (simp add: to_float_def round32_def rne_def FLT_MAX_def)

lemmas to_float_values = to_float_0 to_float_1 to_float_2 to_float_3 to_float_4 to_float_6
  to_float_neg_2 to_float_half to_float_3_halves to_float_near_1 to_float_near_1_double round32_2








section \<open>Properties of ApplyNorm\<close>

lemma fold_update_length:
  "length (fold (\<lambda>i v. v[i := g (v ! i)]) is v) = length v"
  by (induction "is" arbitrary: v) simp_all

lemma fold_update_upt:
  "n \<le> length v \<Longrightarrow>
   fold (\<lambda>i v. v[i := g (v ! i)]) [0..<n] v = map g (take n v) @ drop n v"
proof (induction n)
  case 0
  then show ?case by simp
next
  case (Suc n)
  then have n: "n < length v" by simp
  have "fold (\<lambda>i v. v[i := g (v ! i)]) [0..<Suc n] v
      = (map g (take n v) @ drop n v)[n := g ((map g (take n v) @ drop n v) ! n)]"
    using Suc by simp
  also have "(map g (take n v) @ drop n v) ! n = v ! n"
    using n by (simp add: nth_append)
  also have "(map g (take n v) @ drop n v)[n := g (v ! n)]
      = map g (take n v) @ (drop n v)[0 := g (v ! n)]"
    using n by (simp add: list_update_append)
  also have "(drop n v)[0 := g (v ! n)] = g (v ! n) # drop (Suc n) v"
    using n by (simp add: Cons_nth_drop_Suc [symmetric])
  also have "map g (take n v) @ g (v ! n) # drop (Suc n) v
      = map g (take (Suc n) v) @ drop (Suc n) v"
    using n by (simp add: take_Suc_conv_app_nth)
  finally show ?case .
qed

lemma ApplyNorm_map:
  "ApplyNorm f vec = (if f vec > 0 then map (\<lambda>x. float_div x (f vec)) vec else vec)"
  using fold_update_upt [of "length vec" vec "\<lambda>x. float_div x (f vec)"]
  by (simp add: ApplyNorm_def Let_def)

text \<open>
  C9. For every vector passed to ApplyNorm: when the computed norm is not strictly
  positive the vector is returned as it was; when the norm is strictly positive the
  vector keeps its dimension and every coordinate is the old one divided by the norm
  (the quotient is stored in the float coordinate, so it is rounded).
\<close>

theorem ApplyNorm_spec:
  "(\<not> 0 < normprocinfo vec \<longrightarrow> ApplyNorm normprocinfo vec = vec) \<and>
   (0 < normprocinfo vec \<longrightarrow>
      length (ApplyNorm normprocinfo vec) = length vec \<and>
      (\<forall>i < length vec.
         ApplyNorm normprocinfo vec ! i = float_div (vec ! i) (normprocinfo vec)))"
  by (simp add: ApplyNorm_map)


theorem ApplyNorm_spec_witness:
  "ApplyNorm (\<lambda>v. 0) [Finite 3, Finite 4] = [Finite 3, Finite 4] \<and>
   length (ApplyNorm (\<lambda>v. 2) [Finite 3, Finite 4]) = 2 \<and>
   ApplyNorm (\<lambda>v. 2) [Finite 3, Finite 4] ! 0 = Finite (3 / 2) \<and>
   ApplyNorm (\<lambda>v. 2) [Finite 3, Finite 4] ! 1 = Finite 2"
  using ApplyNorm_spec [of "\<lambda>v. 0" "[Finite 3, Finite 4]"]
        ApplyNorm_spec [of "\<lambda>v. 2" "[Finite 3, Finite 4]"]
  by (simp add: to_float_values)

section \<open>The comparison of vectors and the sort\<close>

lemma float_less_irrefl: "\<not> float_less x x"
  by (cases x) simp_all

lemma float_less_trans: "float_less x y \<Longrightarrow> float_less y z \<Longrightarrow> float_less x z"
  by (cases x; cases y; cases z) simp_all

lemma float_less_asym: "float_less x y \<Longrightarrow> \<not> float_less y x"
  by (cases x; cases y) simp_all

lemma float_less_le_trans:
  "float_less x y \<Longrightarrow> \<not> float_less z y \<Longrightarrow> \<not> isnan z \<Longrightarrow> float_less x z"
  by (cases x; cases y; cases z) simp_all

lemma float_le_less_trans:
  "float_less y z \<Longrightarrow> \<not> float_less y x \<Longrightarrow> \<not> isnan x \<Longrightarrow> float_less x z"
  by (cases x; cases y; cases z) simp_all

lemma float_less_total:
  "\<not> isnan x \<Longrightarrow> \<not> isnan y \<Longrightarrow> x \<noteq> NegZero \<Longrightarrow> y \<noteq> NegZero \<Longrightarrow>
   \<not> float_less x y \<Longrightarrow> \<not> float_less y x \<Longrightarrow> x = y"
  by (cases x; cases y) simp_all

lemma cmp_range: "vector_cmp_internal a b \<in> {-1, 0, 1}"
  by (induction a b rule: vector_cmp_internal.induct) simp_all

lemma cmp_flip: "vector_cmp_internal b a = - vector_cmp_internal a b"
  by (induction a b rule: vector_cmp_internal.induct) (auto dest: float_less_asym)

lemma cmp_eq:
  "no_nan a \<Longrightarrow> no_nan b \<Longrightarrow> no_negzero a \<Longrightarrow> no_negzero b \<Longrightarrow>
   vector_cmp_internal a b = 0 \<Longrightarrow> a = b"
proof (induction a b rule: vector_cmp_internal.induct)
  case 1
  then show ?case by simp
next
  case (2 y ys)
  then show ?case by simp
next
  case (3 x xs)
  then show ?case by simp
next
  case (4 x xs y ys)
  have c: "\<not> float_less x y" "\<not> float_less y x" "vector_cmp_internal xs ys = 0"
    using "4.prems"(5) by (simp_all split: if_splits)
  have "x = y"
    using "4.prems"(1-4) c(1,2)
    by (intro float_less_total) (simp_all add: no_nan_def no_negzero_def)
  moreover have "xs = ys"
    using "4.prems"(1-4) c by (intro "4.IH") (simp_all add: no_nan_def no_negzero_def)
  ultimately show ?case by simp
qed

lemma cmp_refl: "vector_cmp_internal a a = 0"
  by (induction a) (simp_all add: float_less_irrefl)

lemma cmp_Cons_le:
  "vector_cmp_internal (x # xs) (y # ys) \<le> 0 \<longleftrightarrow>
     float_less x y \<or> (\<not> float_less y x \<and> vector_cmp_internal xs ys \<le> 0)"
  by simp

lemma cmp_trans:
  "no_nan a \<Longrightarrow> no_nan b \<Longrightarrow> no_nan c \<Longrightarrow>
   vector_cmp_internal a b \<le> 0 \<Longrightarrow> vector_cmp_internal b c \<le> 0 \<Longrightarrow> vector_cmp_internal a c \<le> 0"
proof (induction a b arbitrary: c rule: vector_cmp_internal.induct)
  case 1
  then show ?case by simp
next
  case (2 y ys)
  then show ?case by (cases c) simp_all
next
  case (3 x xs)
  then show ?case by simp
next
  case (4 x xs y ys)
  show ?case
  proof (cases c)
    case Nil
    with 4 show ?thesis by (simp split: if_splits)
  next
    case (Cons z zs)
    have nn: "\<not> isnan x" "\<not> isnan y" "\<not> isnan z" "no_nan xs" "no_nan ys" "no_nan zs"
      using "4.prems"(1,2,3) Cons by (simp_all add: no_nan_def)
    have ab: "float_less x y \<or> (\<not> float_less y x \<and> vector_cmp_internal xs ys \<le> 0)"
      using "4.prems"(4) by (simp only: cmp_Cons_le)
    have bc: "float_less y z \<or> (\<not> float_less z y \<and> vector_cmp_internal ys zs \<le> 0)"
      using "4.prems"(5) unfolding Cons by (simp only: cmp_Cons_le)
    have "float_less x z \<or> (\<not> float_less z x \<and> vector_cmp_internal xs zs \<le> 0)"
    proof (cases "float_less x y")
      case True
      from bc show ?thesis
      proof
        assume "float_less y z"
        then show ?thesis using True float_less_trans by blast
      next
        assume "\<not> float_less z y \<and> vector_cmp_internal ys zs \<le> 0"
        then show ?thesis using True nn(3) float_less_le_trans by blast
      qed
    next
      case False
      then have yx: "\<not> float_less y x" and rec: "vector_cmp_internal xs ys \<le> 0"
        using ab by simp_all
      from bc show ?thesis
      proof
        assume "float_less y z"
        then show ?thesis using yx nn(1) float_le_less_trans by blast
      next
        assume a: "\<not> float_less z y \<and> vector_cmp_internal ys zs \<le> 0"
        have "\<not> float_less z x"
        proof
          assume "float_less z x"
          then have "float_less z y" using yx nn(2) float_less_le_trans by blast
          with a show False by simp
        qed
        moreover have "vector_cmp_internal xs zs \<le> 0"
          using False yx nn(4,5,6) rec a by (intro "4.IH" [where c = zs]) simp_all
        ultimately show ?thesis by simp
      qed
    qed
    then show ?thesis unfolding Cons by (simp only: cmp_Cons_le)
  qed
qed

lemma vec_le_total: "vec_le a b \<or> vec_le b a"
  using cmp_flip [of a b] by (auto simp: vec_le_def CompareVectors_def)

lemma vec_le_refl: "vec_le a a"
  by (simp add: vec_le_def CompareVectors_def cmp_refl)

lemma vec_le_trans:
  "no_nan a \<Longrightarrow> no_nan b \<Longrightarrow> no_nan c \<Longrightarrow> vec_le a b \<Longrightarrow> vec_le b c \<Longrightarrow> vec_le a c"
  unfolding vec_le_def CompareVectors_def by (rule cmp_trans)

lemma vec_le_antisym:
  "no_nan a \<Longrightarrow> no_nan b \<Longrightarrow> no_negzero a \<Longrightarrow> no_negzero b \<Longrightarrow>
   vec_le a b \<Longrightarrow> vec_le b a \<Longrightarrow> a = b"
  using cmp_flip [of a b] cmp_eq [of a b] by (simp add: vec_le_def CompareVectors_def)

lemma vec_less_iff:
  assumes "no_nan a" "no_nan b" "no_negzero a" "no_negzero b"
  shows "vec_less a b \<longleftrightarrow> vec_le a b \<and> a \<noteq> b"
proof -
  have "a = b \<longleftrightarrow> vector_cmp_internal a b = 0"
    using cmp_eq [OF assms] cmp_refl [of a] by auto
  then show ?thesis
    unfolding vec_less_def vec_le_def CompareVectors_def by linarith
qed

lemma mset_qsort_insert: "mset (qsort_insert c x xs) = add_mset x (mset xs)"
  by (induction xs) simp_all

lemma set_qsort_insert: "set (qsort_insert c x xs) = insert x (set xs)"
  by (induction xs) auto

lemma sorted_qsort_insert:
  "no_nan x \<Longrightarrow> \<forall>v \<in> set xs. no_nan v \<Longrightarrow> sorted_wrt vec_le xs \<Longrightarrow>
   sorted_wrt vec_le (qsort_insert CompareVectors x xs)"
proof (induction xs)
  case Nil
  then show ?case by simp
next
  case (Cons y ys)
  show ?case
  proof (cases "CompareVectors x y \<le> 0")
    case True
    then have xy: "vec_le x y" by (simp add: vec_le_def)
    have "\<forall>z \<in> set ys. vec_le x z"
      using Cons.prems xy by (auto intro: vec_le_trans [of x y])
    with True xy Cons.prems show ?thesis by simp
  next
    case False
    then have yx: "vec_le y x" using vec_le_total [of x y] by (simp add: vec_le_def)
    with False Cons show ?thesis by (auto simp: set_qsort_insert)
  qed
qed

lemma mset_isort: "mset (isort xs) = mset xs"
  by (induction xs) (simp_all add: isort_def mset_qsort_insert)

lemma set_isort: "set (isort xs) = set xs"
  using mset_isort [of xs] by (metis set_mset_mset)

lemma length_isort: "length (isort xs) = length xs"
  using mset_isort [of xs] by (metis size_mset)

lemma sorted_isort: "\<forall>v \<in> set xs. no_nan v \<Longrightarrow> sorted_wrt vec_le (isort xs)"
proof (induction xs)
  case Nil
  then show ?case by (simp add: isort_def)
next
  case (Cons x xs)
  then have "sorted_wrt vec_le (isort xs)" by simp
  moreover have "\<forall>v \<in> set (isort xs). no_nan v" using Cons.prems by (simp add: set_isort)
  ultimately have "sorted_wrt vec_le (qsort_insert CompareVectors x (isort xs))"
    using Cons.prems by (intro sorted_qsort_insert) simp_all
  then show ?case by (simp add: isort_def)
qed

lemma qsort_isort: "qsort base nmemb CompareVectors = isort (take nmemb base) @ drop nmemb base"
  by (simp add: qsort_def isort_def)

lemma take_qsort: "take nmemb (qsort base nmemb CompareVectors) = isort (take nmemb base)"
proof (cases "nmemb \<le> length base")
  case True
  then show ?thesis by (simp add: qsort_isort length_isort)
next
  case False
  then show ?thesis by (simp add: qsort_isort length_isort)
qed

lemma mset_qsort: "mset (qsort base nmemb CompareVectors) = mset base"
proof -
  have "mset (qsort base nmemb CompareVectors) = mset (take nmemb base) + mset (drop nmemb base)"
    by (simp add: qsort_isort mset_isort)
  also have "\<dots> = mset (take nmemb base @ drop nmemb base)" by (rule mset_append [symmetric])
  also have "\<dots> = mset base" by (simp only: append_take_drop_id)
  finally show ?thesis .
qed


lemma sorted_adjacent_distinct:
  assumes nn: "\<forall>v \<in> set xs. no_nan v \<and> no_negzero v"
    and srt: "sorted_wrt vec_le xs"
    and adj: "\<forall>i. Suc i < length xs \<longrightarrow> xs ! Suc i \<noteq> xs ! i"
  shows "sorted_wrt vec_less xs"
  using assms
proof (induction xs)
  case Nil
  then show ?case by simp
next
  case (Cons x xs)
  have tl: "sorted_wrt vec_less xs"
  proof (rule Cons.IH)
    show "\<forall>v \<in> set xs. no_nan v \<and> no_negzero v" using Cons.prems by simp
    show "sorted_wrt vec_le xs" using Cons.prems by simp
    show "\<forall>i. Suc i < length xs \<longrightarrow> xs ! Suc i \<noteq> xs ! i"
    proof (intro allI impI)
      fix i assume "Suc i < length xs"
      then show "xs ! Suc i \<noteq> xs ! i" using Cons.prems(3) [rule_format, of "Suc i"] by simp
    qed
  qed
  have hd: "\<forall>z \<in> set xs. vec_less x z"
  proof
    fix z assume z: "z \<in> set xs"
    then obtain y ys where xs: "xs = y # ys" by (cases xs) auto
    have xy: "vec_le x y" "x \<noteq> y"
      using Cons.prems(2) Cons.prems(3) [rule_format, of 0] xs by auto
    have xz: "vec_le x z" using Cons.prems(2) z by simp
    have yz: "vec_le y z"
    proof (cases "z = y")
      case True
      then show ?thesis by (simp add: vec_le_refl)
    next
      case False
      then show ?thesis using Cons.prems(2) z xs by auto
    qed
    have "x \<noteq> z"
    proof
      assume "x = z"
      then have "vec_le y x" using yz by simp
      then have "x = y" using xy(1) Cons.prems(1) xs by (intro vec_le_antisym) simp_all
      with xy(2) show False by simp
    qed
    then show "vec_less x z" using xz Cons.prems(1) z by (simp add: vec_less_iff)
  qed
  from hd tl show ?case by simp
qed

lemma vec_less_irrefl: "\<not> vec_less a a"
  by (simp add: vec_less_def CompareVectors_def cmp_refl)

lemma sorted_less_distinct: "sorted_wrt vec_less xs \<Longrightarrow> distinct xs"
  by (induction xs) (auto simp: vec_less_irrefl)

lemma check_coords_None:
  "check_coords v = None \<longleftrightarrow> (\<forall>x \<in> set v. \<not> isnan x \<and> \<not> isinf x)"
  by (induction v) auto

lemma check_values_None:
  "check_values vs = None \<longleftrightarrow> (\<forall>v \<in> set vs. \<forall>x \<in> set v. \<not> isnan x \<and> \<not> isinf x)"
proof (induction vs)
  case Nil
  then show ?case by simp
next
  case (Cons v vs)
  show ?case
  proof (cases "check_coords v")
    case None
    then show ?thesis using Cons check_coords_None [of v] by simp
  next
    case (Some e)
    then have "\<not> (\<forall>x \<in> set v. \<not> isnan x \<and> \<not> isinf x)"
      using check_coords_None [of v] by simp
    with Some show ?thesis by auto
  qed
qed



lemma list_ex_upt: "list_ex P [a..<b] \<longleftrightarrow> (\<exists>i. a \<le> i \<and> i < b \<and> P i)"
  by (auto simp: list_ex_iff)

lemma distinct_isort: "distinct (isort xs) \<longleftrightarrow> distinct xs"
  by (rule mset_eq_imp_distinct_iff [OF mset_isort])

lemma adjacent_dup_iff:
  assumes nn: "\<forall>v \<in> set xs. no_nan v \<and> no_negzero v"
  shows "(\<exists>i. 1 \<le> i \<and> i < length xs \<and> isort xs ! i = isort xs ! (i - 1)) \<longleftrightarrow> \<not> distinct xs"
proof
  assume "\<exists>i. 1 \<le> i \<and> i < length xs \<and> isort xs ! i = isort xs ! (i - 1)"
  then obtain i where i: "1 \<le> i" "i < length xs" "isort xs ! i = isort xs ! (i - 1)" by blast
  have "\<not> distinct (isort xs)"
  proof
    assume "distinct (isort xs)"
    then have "i = i - 1"
      using i nth_eq_iff_index_eq [of "isort xs" i "i - 1"] by (simp add: length_isort)
    with i(1) show False by simp
  qed
  then show "\<not> distinct xs" by (simp add: distinct_isort)
next
  assume nd: "\<not> distinct xs"
  show "\<exists>i. 1 \<le> i \<and> i < length xs \<and> isort xs ! i = isort xs ! (i - 1)"
  proof (rule ccontr)
    assume no: "\<not> (\<exists>i. 1 \<le> i \<and> i < length xs \<and> isort xs ! i = isort xs ! (i - 1))"
    have adj: "\<forall>i. Suc i < length (isort xs) \<longrightarrow> isort xs ! Suc i \<noteq> isort xs ! i"
    proof (intro allI impI)
      fix i assume "Suc i < length (isort xs)"
      then show "isort xs ! Suc i \<noteq> isort xs ! i"
        using no [simplified, rule_format, of "Suc i"] by (simp add: length_isort)
    qed
    have "sorted_wrt vec_less (isort xs)"
      using nn adj by (intro sorted_adjacent_distinct sorted_isort) (simp_all add: set_isort)
    then have "distinct (isort xs)" by (rule sorted_less_distinct)
    then have "distinct xs" by (simp add: distinct_isort)
    with nd show False by simp
  qed
qed

lemma no_nan_iff: "no_nan v \<longleftrightarrow> (\<forall>x \<in> set v. \<not> isnan x)"
  by (simp add: no_nan_def list_all_iff)

lemma adjacent_duplicate_iff:
  "adjacent_duplicate xs \<longleftrightarrow> (\<exists>i. 1 \<le> i \<and> i < length xs \<and> xs ! i = xs ! (i - 1))"
  by (simp add: adjacent_duplicate_def list_ex_upt datumIsEqual_def)

section \<open>Properties of CheckCenters\<close>

text \<open>
  C8, as amended. For an array of centers with one slot per position below maxlen,
  CheckCenters raises an error if and only if: the length differs from maxlen, or some
  coordinate of a center is NaN, or some coordinate is infinite, or the type is not
  IVFFLAT_TYPE_VECTOR, or two neighbours of the sorted array of centers are byte-equal,
  or the index-level norm function is configured and some center has norm zero.
  When no coordinate is NaN or the negative zero, two neighbours of the sorted array are
  byte-equal exactly when two centers are.
\<close>

theorem CheckCenters_error_iff:
  assumes wf: "length (items centers) = maxlen centers"
  shows "((\<exists>e. CheckCenters index centers type = Inl e) \<longleftrightarrow>
     (lengthVA centers \<noteq> maxlen centers
      \<or> (\<exists>v \<in> set (take (lengthVA centers) (items centers)). \<exists>x \<in> set v. isnan x)
      \<or> (\<exists>v \<in> set (take (lengthVA centers) (items centers)). \<exists>x \<in> set v. isinf x)
      \<or> type \<noteq> IVFFLAT_TYPE_VECTOR
      \<or> adjacent_duplicate (sorted_centers centers)
      \<or> (\<exists>normprocinfo. norm_proc index = Some normprocinfo
            \<and> (\<exists>v \<in> set (take (lengthVA centers) (items centers)). normprocinfo v = 0)))) \<and>
   ((\<forall>v \<in> set (take (lengthVA centers) (items centers)). no_nan v \<and> no_negzero v) \<longrightarrow>
      (adjacent_duplicate (sorted_centers centers)
         \<longleftrightarrow> \<not> distinct (take (lengthVA centers) (items centers))))"
proof
  show "(\<forall>v \<in> set (take (lengthVA centers) (items centers)). no_nan v \<and> no_negzero v) \<longrightarrow>
      (adjacent_duplicate (sorted_centers centers)
         \<longleftrightarrow> \<not> distinct (take (lengthVA centers) (items centers)))"
    using adjacent_dup_iff [of "take (lengthVA centers) (items centers)"]
    by (simp add: adjacent_duplicate_iff sorted_centers_def length_isort)
  show "(\<exists>e. CheckCenters index centers type = Inl e) \<longleftrightarrow>
     (lengthVA centers \<noteq> maxlen centers
      \<or> (\<exists>v \<in> set (take (lengthVA centers) (items centers)). \<exists>x \<in> set v. isnan x)
      \<or> (\<exists>v \<in> set (take (lengthVA centers) (items centers)). \<exists>x \<in> set v. isinf x)
      \<or> type \<noteq> IVFFLAT_TYPE_VECTOR
      \<or> adjacent_duplicate (sorted_centers centers)
      \<or> (\<exists>normprocinfo. norm_proc index = Some normprocinfo
            \<and> (\<exists>v \<in> set (take (lengthVA centers) (items centers)). normprocinfo v = 0)))"
  proof (cases "lengthVA centers \<noteq> maxlen centers")
    case True
    then show ?thesis by (simp add: CheckCenters_def)
  next
    case False
    then have n: "lengthVA centers = length (items centers)" using wf by simp
    show ?thesis
    proof (cases "check_values (items centers)")
      case (Some e)
      then have "\<not> (\<forall>v \<in> set (items centers). \<forall>x \<in> set v. \<not> isnan x \<and> \<not> isinf x)"
        using check_values_None [of "items centers"] by simp
      then have "(\<exists>v \<in> set (items centers). \<exists>x \<in> set v. isnan x)
               \<or> (\<exists>v \<in> set (items centers). \<exists>x \<in> set v. isinf x)" by blast
      moreover have "CheckCenters index centers type = Inl e"
        using Some n wf by (simp add: CheckCenters_def)
      ultimately show ?thesis using n by auto
    next
      case None
      then have fin: "\<forall>v \<in> set (items centers). \<forall>x \<in> set v. \<not> isnan x \<and> \<not> isinf x"
        using check_values_None [of "items centers"] by simp
      show ?thesis
      proof (cases "type = IVFFLAT_TYPE_VECTOR")
        case False
        then show ?thesis using None n wf by (simp add: CheckCenters_def)
      next
        case True
        have srt: "qsort (items centers) (lengthVA centers) CompareVectors = isort (items centers)"
          using n by (simp add: qsort_isort)
        have sc: "sorted_centers centers = isort (items centers)"
          using n by (simp add: sorted_centers_def)
        have dup: "list_ex (\<lambda>i. datumIsEqual (isort (items centers) ! i) (isort (items centers) ! (i - 1)))
                     [1..<length (items centers)] \<longleftrightarrow> adjacent_duplicate (sorted_centers centers)"
          by (simp add: sc adjacent_duplicate_def length_isort)
        have zero: "list_ex (\<lambda>i. f (isort (items centers) ! i) = 0) [0..<length (items centers)]
                     \<longleftrightarrow> (\<exists>v \<in> set (items centers). f v = 0)" for f :: "Vector \<Rightarrow> real"
        proof -
          have "(\<exists>i < length (isort (items centers)). f (isort (items centers) ! i) = 0)
                \<longleftrightarrow> (\<exists>v \<in> set (isort (items centers)). f v = 0)"
            by (metis in_set_conv_nth)
          then show ?thesis by (simp add: list_ex_upt length_isort set_isort)
        qed
        have cc: "CheckCenters index centers type =
            (if adjacent_duplicate (sorted_centers centers) then Inl Duplicate_centers_detected
             else case norm_proc index of
               None \<Rightarrow> Inr (centers\<lparr>items := isort (items centers)\<rparr>)
             | Some f \<Rightarrow> if \<exists>v \<in> set (items centers). f v = 0 then Inl Zero_norm_detected
                         else Inr (centers\<lparr>items := isort (items centers)\<rparr>))"
          unfolding CheckCenters_def Let_def srt
          using True None False dup zero n
          by (simp add: VectorArrayGet_def split: option.splits)
        show ?thesis
          unfolding cc using True False fin n by (auto split: option.splits)
      qed
    qed
  qed
qed

theorem CheckCenters_error_iff_witness:
  "\<exists>e. CheckCenters example_index (example_array 2 [[Finite 1], [Finite 1]]) IVFFLAT_TYPE_VECTOR = Inl e"
  using CheckCenters_error_iff [of "example_array 2 [[Finite 1], [Finite 1]]" example_index
          IVFFLAT_TYPE_VECTOR]
  by (simp add: example_array_def adjacent_duplicate_def sorted_centers_def isort_def
      datumIsEqual_def CompareVectors_def upt_rec)

text \<open>
  C8 as stated fails: with a type other than IVFFLAT_TYPE_VECTOR, CheckCenters raises
  "Unsupported type" on centers that meet none of the listed conditions.
\<close>

theorem CheckCenters_unsupported_type:
  "CheckCenters example_index (example_array 2 [[Finite 0], [Finite 1]]) IVFFLAT_TYPE_OTHER
     = Inl Unsupported_type \<and>
   lengthVA (example_array 2 [[Finite 0], [Finite 1]]) = maxlen (example_array 2 [[Finite 0], [Finite 1]]) \<and>
   \<not> (\<exists>v \<in> set (items (example_array 2 [[Finite 0], [Finite 1]])). \<exists>x \<in> set v. isnan x \<or> isinf x) \<and>
   \<not> adjacent_duplicate (sorted_centers (example_array 2 [[Finite 0], [Finite 1]])) \<and>
   distinct (items (example_array 2 [[Finite 0], [Finite 1]])) \<and>
   norm_proc example_index = None"
  by (simp add: CheckCenters_def example_array_def example_index_def adjacent_duplicate_def
      sorted_centers_def isort_def datumIsEqual_def CompareVectors_def upt_rec)

text \<open>
  The centers (0.0) and (-0.0) pass CheckCenters: they compare equal and their bytes
  differ.
\<close>

lemma CheckCenters_signed_zeros:
  "CheckCenters example_index (example_array 2 [[Finite 0], [NegZero]]) IVFFLAT_TYPE_VECTOR
     = Inr (example_array 2 [[Finite 0], [NegZero]]) \<and>
   CompareVectors [Finite 0] [NegZero] = 0 \<and> \<not> datumIsEqual [Finite 0] [NegZero]"
  by (simp add: CheckCenters_def example_array_def example_index_def qsort_def
      VectorArrayGet_def datumIsEqual_def CompareVectors_def Let_def upt_rec)

lemma int32_le_INT_MAX: "int32 x \<le> INT_MAX"
proof -
  have "(x + 2147483648) mod 4294967296 < 4294967296" by simp
  then show ?thesis by (simp add: int32_def INT_MAX_def)
qed

lemma not_indexing_overflows: "\<not> indexing_overflows numCenters"
  using int32_le_INT_MAX [of "int numCenters * int numCenters"]
  by (simp add: indexing_overflows_def)

section \<open>The indexing check of ElkanKmeans\<close>

text \<open>
  C3: the code at 46341 centers. The square of 46341 is above INT_MAX, the test of the
  code is false there, and ElkanKmeans does not fail with the indexing error.
\<close>

theorem indexing_check_never_fires:
  "INT_MAX < 46341 * 46341 \<and> \<not> indexing_overflows 46341 \<and>
   ElkanKmeans index samples (centers\<lparr>maxlen := 46341\<rparr>) type r \<noteq> Inl Indexing_overflow"
  by (simp add: INT_MAX_def not_indexing_overflows ElkanKmeans_def Let_def)

section \<open>Properties of IvfflatKmeans\<close>

text \<open>
  C6. For every input, IvfflatKmeans runs QuickCenters when the number of samples is at
  most maxlen of the centers and ElkanKmeans otherwise, and in both cases runs
  CheckCenters on the centers that come out.
\<close>

theorem IvfflatKmeans_driver:
  "(lengthVA samples \<le> maxlen centers \<longrightarrow>
      IvfflatKmeans index samples centers type r
        = then_CheckCenters index type (QuickCenters index samples centers type r)) \<and>
   (\<not> lengthVA samples \<le> maxlen centers \<longrightarrow>
      IvfflatKmeans index samples centers type r
        = then_CheckCenters index type (ElkanKmeans index samples centers type r))"
  by (simp add: IvfflatKmeans_def then_CheckCenters_def)

theorem IvfflatKmeans_driver_witness:
  "IvfflatKmeans example_index (example_array 2 [[Finite 1], [Finite 0]])
      (example_array 0 [[Finite 0], [Finite 0]]) IVFFLAT_TYPE_VECTOR 0
    = then_CheckCenters example_index IVFFLAT_TYPE_VECTOR
        (QuickCenters example_index (example_array 2 [[Finite 1], [Finite 0]])
           (example_array 0 [[Finite 0], [Finite 0]]) IVFFLAT_TYPE_VECTOR 0) \<and>
   IvfflatKmeans example_index (example_array 2 [[Finite 1], [Finite 0]])
      (example_array 0 [[Finite 0]]) IVFFLAT_TYPE_VECTOR 0
    = then_CheckCenters example_index IVFFLAT_TYPE_VECTOR
        (ElkanKmeans example_index (example_array 2 [[Finite 1], [Finite 0]])
           (example_array 0 [[Finite 0]]) IVFFLAT_TYPE_VECTOR 0)"
  using IvfflatKmeans_driver [of "example_array 2 [[Finite 1], [Finite 0]]"
          "example_array 0 [[Finite 0], [Finite 0]]" example_index IVFFLAT_TYPE_VECTOR 0]
        IvfflatKmeans_driver [of "example_array 2 [[Finite 1], [Finite 0]]"
          "example_array 0 [[Finite 0]]" example_index IVFFLAT_TYPE_VECTOR 0]
  by (simp add: example_array_def)

lemma QuickCenters_samples:
  "QuickCenters index samples centers type r = Inr (samples', centers', r') \<Longrightarrow>
   samples' = (if 0 < lengthVA samples
               then samples\<lparr>items := qsort (items samples) (lengthVA samples) CompareVectors\<rparr>
               else samples)"
  by (auto simp: QuickCenters_def Let_def split: if_splits sum.splits)

lemma ElkanKmeans_samples:
  "ElkanKmeans index samples centers type r = Inr (samples', centers', r') \<Longrightarrow> samples' = samples"
  by (auto simp: ElkanKmeans_def Let_def split: if_splits)

lemma IvfflatKmeans_Inr:
  assumes "IvfflatKmeans index samples centers type r = Inr (samples', centers', r')"
  obtains c where
    "(if lengthVA samples \<le> maxlen centers
      then QuickCenters index samples centers type r
      else ElkanKmeans index samples centers type r) = Inr (samples', c, r')"
    "CheckCenters index c type = Inr centers'"
  using assms by (auto simp: IvfflatKmeans_def split: sum.splits)

text \<open>
  C2, as amended. On a successful return of IvfflatKmeans the samples array holds the
  same vectors as on entry, with the same length and capacity. It is unchanged when
  ElkanKmeans ran or when there is no sample; when QuickCenters ran, its slots in use
  are sorted in place.
\<close>

theorem IvfflatKmeans_samples:
  assumes "IvfflatKmeans index samples centers type r = Inr (samples', centers', r')"
  shows "samples' =
           (if 0 < lengthVA samples \<and> lengthVA samples \<le> maxlen centers
            then samples\<lparr>items := qsort (items samples) (lengthVA samples) CompareVectors\<rparr>
            else samples) \<and>
         mset (items samples') = mset (items samples) \<and>
         lengthVA samples' = lengthVA samples \<and> maxlen samples' = maxlen samples"
proof -
  from assms obtain c where
    run: "(if lengthVA samples \<le> maxlen centers
      then QuickCenters index samples centers type r
      else ElkanKmeans index samples centers type r) = Inr (samples', c, r')"
    by (rule IvfflatKmeans_Inr)
  have eq: "samples' =
           (if 0 < lengthVA samples \<and> lengthVA samples \<le> maxlen centers
            then samples\<lparr>items := qsort (items samples) (lengthVA samples) CompareVectors\<rparr>
            else samples)"
  proof (cases "lengthVA samples \<le> maxlen centers")
    case True
    then show ?thesis using run QuickCenters_samples [of index samples centers type r samples' c r']
      by simp
  next
    case False
    then show ?thesis using run ElkanKmeans_samples [of index samples centers type r samples' c r']
      by simp
  qed
  then show ?thesis by (simp add: mset_qsort)
qed

lemma quick_run:
  "IvfflatKmeans example_index (example_array 2 [[Finite 1], [Finite 0]])
     (example_array 0 [[Finite 0], [Finite 0]]) IVFFLAT_TYPE_VECTOR 0
   = Inr (example_array 2 [[Finite 0], [Finite 1]], example_array 2 [[Finite 0], [Finite 1]], 0)"
  by (simp add: IvfflatKmeans_def QuickCenters_def example_array_def example_index_def
      qsort_def CompareVectors_def copy_distinct_def VectorArrayGet_def VectorArraySet_def
      datumIsEqual_def CheckCenters_def fill_random.simps Let_def upt_rec)

theorem IvfflatKmeans_samples_witness:
  "mset (items (example_array 2 [[Finite 0], [Finite 1]]))
     = mset (items (example_array 2 [[Finite 1], [Finite 0]])) \<and>
   lengthVA (example_array 2 [[Finite 0], [Finite 1]])
     = lengthVA (example_array 2 [[Finite 1], [Finite 0]])"
  using IvfflatKmeans_samples [OF quick_run] by blast


text \<open>
  C2 as stated fails: with two samples in descending order and room for two centers,
  IvfflatKmeans returns the samples in ascending order.
\<close>

theorem IvfflatKmeans_reorders_samples:
  "IvfflatKmeans example_index (example_array 2 [[Finite 1], [Finite 0]])
     (example_array 0 [[Finite 0], [Finite 0]]) IVFFLAT_TYPE_VECTOR 0
   = Inr (example_array 2 [[Finite 0], [Finite 1]], example_array 2 [[Finite 0], [Finite 1]], 0) \<and>
   example_array 2 [[Finite 0], [Finite 1]] \<noteq> example_array 2 [[Finite 1], [Finite 0]]"
  by (simp add: quick_run) (simp add: example_array_def)

lemma CheckCenters_Inr:
  assumes "CheckCenters index centers type = Inr centers'"
  shows "lengthVA centers' = lengthVA centers \<and>
         take (lengthVA centers') (items centers') = isort (take (lengthVA centers) (items centers)) \<and>
         check_values (take (lengthVA centers) (items centers)) = None \<and>
         \<not> list_ex (\<lambda>i. isort (take (lengthVA centers) (items centers)) ! i
                        = isort (take (lengthVA centers) (items centers)) ! (i - 1))
              [1..<lengthVA centers]"
proof -
  let ?n = "lengthVA centers"
  let ?q = "qsort (items centers) ?n CompareVectors"
  have nth: "?q ! i = isort (take ?n (items centers)) ! i" if "i < ?n" for i
    using that nth_take [of i ?n ?q] by (simp add: take_qsort)
  from assms have cv: "check_values (take ?n (items centers)) = None"
    by (auto simp: CheckCenters_def split: if_splits option.splits)
  from assms have c': "centers' = centers\<lparr>items := ?q\<rparr>"
    by (auto simp: CheckCenters_def Let_def split: if_splits option.splits)
  from assms have nd: "\<not> list_ex (\<lambda>i. ?q ! i = ?q ! (i - 1)) [1..<?n]"
    by (auto simp: CheckCenters_def Let_def VectorArrayGet_def datumIsEqual_def
        split: if_splits option.splits)
  have "\<not> list_ex (\<lambda>i. isort (take ?n (items centers)) ! i
                      = isort (take ?n (items centers)) ! (i - 1)) [1..<?n]"
  proof
    assume "list_ex (\<lambda>i. isort (take ?n (items centers)) ! i
                      = isort (take ?n (items centers)) ! (i - 1)) [1..<?n]"
    then obtain i where i: "1 \<le> i" "i < ?n"
      "isort (take ?n (items centers)) ! i = isort (take ?n (items centers)) ! (i - 1)"
      by (auto simp: list_ex_upt)
    then have "?q ! i = ?q ! (i - 1)" by (simp add: nth)
    with i nd show False by (auto simp: list_ex_upt)
  qed
  with c' cv show ?thesis by (simp add: take_qsort)
qed

lemma CheckCenters_sorted:
  assumes "CheckCenters index centers type = Inr centers'"
  shows "sorted_wrt vec_le (take (lengthVA centers') (items centers'))"
    and "\<not> adjacent_duplicate (take (lengthVA centers') (items centers'))"
    and "\<forall>v \<in> set (take (lengthVA centers') (items centers')). no_negzero v \<Longrightarrow>
         sorted_wrt vec_less (take (lengthVA centers') (items centers'))"
proof -
  let ?cs = "take (lengthVA centers) (items centers)"
  from CheckCenters_Inr [OF assms] have
    tk: "take (lengthVA centers') (items centers') = isort ?cs" and
    cv: "check_values ?cs = None" and
    nd: "\<not> list_ex (\<lambda>i. isort ?cs ! i = isort ?cs ! (i - 1)) [1..<lengthVA centers]"
    by blast+
  from cv have nn: "\<forall>v \<in> set ?cs. no_nan v"
    by (simp add: check_values_None no_nan_iff)
  have adj: "\<forall>i. Suc i < length (isort ?cs) \<longrightarrow> isort ?cs ! Suc i \<noteq> isort ?cs ! i"
  proof (intro allI impI)
    fix i assume "Suc i < length (isort ?cs)"
    then have "Suc i < lengthVA centers" by (simp add: length_isort)
    then show "isort ?cs ! Suc i \<noteq> isort ?cs ! i"
      using nd by (auto simp: list_ex_upt)
  qed
  have le: "sorted_wrt vec_le (isort ?cs)"
    using nn by (rule sorted_isort)
  then show "sorted_wrt vec_le (take (lengthVA centers') (items centers'))"
    by (simp add: tk)
  show "\<not> adjacent_duplicate (take (lengthVA centers') (items centers'))"
    unfolding tk adjacent_duplicate_iff
  proof
    assume "\<exists>i. 1 \<le> i \<and> i < length (isort ?cs) \<and> isort ?cs ! i = isort ?cs ! (i - 1)"
    then obtain i where i: "1 \<le> i" "i < length (isort ?cs)"
      "isort ?cs ! i = isort ?cs ! (i - 1)" by blast
    then obtain i' where "i = Suc i'" by (cases i) simp_all
    with i adj show False by auto
  qed
  show "sorted_wrt vec_less (take (lengthVA centers') (items centers'))"
    if "\<forall>v \<in> set (take (lengthVA centers') (items centers')). no_negzero v"
  proof -
    have "\<forall>v \<in> set (isort ?cs). no_nan v \<and> no_negzero v"
      using nn that by (simp add: tk set_isort)
    then have "sorted_wrt vec_less (isort ?cs)"
      using le adj by (intro sorted_adjacent_distinct) simp_all
    then show ?thesis by (simp add: tk)
  qed
qed

text \<open>
  C10. On every successful return of IvfflatKmeans the centers in use are in ascending
  order of the vector comparison, whichever path trained them, and no center has the
  bytes of the center before it. The order is strictly ascending when no coordinate of
  a center is the negative zero (the centers (0.0) and (-0.0) compare equal and both
  pass CheckCenters).
\<close>

theorem IvfflatKmeans_sorted:
  assumes "IvfflatKmeans index samples centers type r = Inr (samples', centers', r')"
  shows "sorted_wrt vec_le (take (lengthVA centers') (items centers')) \<and>
         \<not> adjacent_duplicate (take (lengthVA centers') (items centers')) \<and>
         ((\<forall>v \<in> set (take (lengthVA centers') (items centers')). no_negzero v) \<longrightarrow>
            sorted_wrt vec_less (take (lengthVA centers') (items centers')))"
proof -
  from assms obtain c where "CheckCenters index c type = Inr centers'"
    by (rule IvfflatKmeans_Inr)
  then show ?thesis using CheckCenters_sorted [of index c type centers'] by blast
qed

theorem IvfflatKmeans_sorted_witness:
  "sorted_wrt vec_le
     (take (lengthVA (example_array 2 [[Finite 0], [Finite 1]]))
        (items (example_array 2 [[Finite 0], [Finite 1]]))) \<and>
   \<not> adjacent_duplicate
     (take (lengthVA (example_array 2 [[Finite 0], [Finite 1]]))
        (items (example_array 2 [[Finite 0], [Finite 1]]))) \<and>
   sorted_wrt vec_less
     (take (lengthVA (example_array 2 [[Finite 0], [Finite 1]]))
        (items (example_array 2 [[Finite 0], [Finite 1]])))"
  using IvfflatKmeans_sorted [OF quick_run]
  by (simp add: example_array_def no_negzero_def)

section \<open>Properties of QuickCenters\<close>















section \<open>Properties of InitCenters\<close>


lemma flat_index_less: "j < ns \<Longrightarrow> i < nc \<Longrightarrow> j * nc + i < ns * (nc::nat)"
proof -
  assume j: "j < ns" and i: "i < nc"
  have "j * nc + i < j * nc + nc" using i by simp
  also have "\<dots> = Suc j * nc" by simp
  also have "\<dots> \<le> ns * nc" using j by (intro mult_le_mono1) simp
  finally show ?thesis .
qed

lemma flat_index_inj:
  assumes "i < nc" "i' < nc" "j * nc + i = j' * nc + (i'::nat)"
  shows "j = j' \<and> i = i'"
proof -
  have "(j * nc + i) div nc = j" "(j * nc + i) mod nc = i" using assms(1) by simp_all
  moreover have "(j' * nc + i') div nc = j'" "(j' * nc + i') mod nc = i'" using assms(2) by simp_all
  ultimately show ?thesis using assms(3) by metis
qed

lemma fold_fst:
  assumes "\<And>x a b. fst (f x (a, b)) = g x a"
  shows "fst (fold f xs (a, b)) = fold g xs a"
proof (induction xs arbitrary: a b)
  case Nil
  then show ?case by simp
next
  case (Cons x xs)
  obtain a' b' where ab: "f x (a, b) = (a', b')" by (cases "f x (a, b)")
  then have "a' = g x a" using assms [of x a b] by simp
  with ab Cons show ?case by simp
qed

lemma fold_set_length: "length (fold (\<lambda>j xs. xs[g j := h j]) js xs) = length xs"
  by (induction js arbitrary: xs) simp_all

lemma fold_set_other:
  "idx \<notin> g ` set js \<Longrightarrow> fold (\<lambda>j xs. xs[g j := h j]) js xs ! idx = xs ! idx"
  by (induction js arbitrary: xs) simp_all

lemma fold_set_nth:
  assumes "inj_on g (set js)" "j \<in> set js" "g j < length xs" "distinct js"
  shows "fold (\<lambda>j xs. xs[g j := h j]) js xs ! g j = h j"
  using assms
proof (induction js arbitrary: xs)
  case Nil
  then show ?case by simp
next
  case (Cons a js)
  show ?case
  proof (cases "j = a")
    case True
    have "g a \<notin> g ` set js"
      using Cons.prems(1,4) by (auto simp: inj_on_def)
    then have "fold (\<lambda>j xs. xs[g j := h j]) js (xs[g a := h a]) ! g a = (xs[g a := h a]) ! g a"
      by (rule fold_set_other)
    then show ?thesis using True Cons.prems(3) by simp
  next
    case False
    then have "j \<in> set js" using Cons.prems(2) by simp
    moreover have "inj_on g (set js)" using Cons.prems(1) by (simp add: inj_on_def)
    ultimately show ?thesis using Cons.IH [of "xs[g a := h a]"] Cons.prems(3,4) by simp
  qed
qed

lemma init_distances_lowerBound:
  "fst (init_distances index samples centers i (lowerBound, weight, sm)) =
   fold (\<lambda>j lb. lb[j * maxlen centers + i :=
            to_float (kmeans_distance_proc index (VectorArrayGet samples j) (VectorArrayGet centers i))])
     [0..<lengthVA samples] lowerBound"
  unfolding init_distances_def
  by (rule fold_fst) (simp add: Let_def split: prod.splits)

lemma init_distances_spec:
  assumes i: "i < maxlen centers"
    and len: "lengthVA samples * maxlen centers \<le> length lowerBound"
    and res: "init_distances index samples centers i (lowerBound, weight, sm) = (lowerBound', weight', sm')"
  shows "length lowerBound' = length lowerBound"
    and "\<And>j. j < lengthVA samples \<Longrightarrow>
           lowerBound' ! (j * maxlen centers + i)
             = to_float (kmeans_distance_proc index (VectorArrayGet samples j) (VectorArrayGet centers i))"
    and "\<And>j i'. i' < maxlen centers \<Longrightarrow> i' \<noteq> i \<Longrightarrow>
           lowerBound' ! (j * maxlen centers + i') = lowerBound ! (j * maxlen centers + i')"
proof -
  let ?g = "\<lambda>j. j * maxlen centers + i"
  let ?h = "\<lambda>j. to_float (kmeans_distance_proc index (VectorArrayGet samples j) (VectorArrayGet centers i))"
  have lb': "lowerBound' = fold (\<lambda>j lb. lb[?g j := ?h j]) [0..<lengthVA samples] lowerBound"
    using init_distances_lowerBound [of index samples centers i lowerBound weight sm] res by simp
  show "length lowerBound' = length lowerBound"
    unfolding lb' by (rule fold_set_length)
  show "lowerBound' ! (j * maxlen centers + i) = ?h j" if "j < lengthVA samples" for j
  proof -
    have "inj_on ?g (set [0..<lengthVA samples])"
      using i by (auto simp: inj_on_def)
    moreover have "?g j < length lowerBound"
      using flat_index_less [OF that i] len by simp
    ultimately show ?thesis
      unfolding lb' using that by (intro fold_set_nth) simp_all
  qed
  show "lowerBound' ! (j * maxlen centers + i') = lowerBound ! (j * maxlen centers + i')"
    if "i' < maxlen centers" "i' \<noteq> i" for j i'
  proof -
    have "j * maxlen centers + i' \<notin> ?g ` set [0..<lengthVA samples]"
      using flat_index_inj [OF that(1) i] that(2) by auto
    then show ?thesis unfolding lb' by (rule fold_set_other)
  qed
qed


lemma choose_sample_le: "j \<le> numSamples - 1 \<Longrightarrow> choose_sample weight numSamples j choice \<le> numSamples - 1"
proof (induction weight numSamples j choice rule: choose_sample.induct)
  case (1 weight numSamples j choice)
  show ?case
  proof (cases "j < numSamples - 1")
    case True
    show ?thesis
    proof (cases "choice - float_val (weight ! j) \<le> 0")
      case le: True
      then show ?thesis using True 1 by (subst choose_sample.simps) (simp add: Let_def)
    next
      case False
      then have "choose_sample weight numSamples (j + 1) (choice - float_val (weight ! j))
                   \<le> numSamples - 1"
        using True by (intro "1.IH") simp_all
      then show ?thesis using True False by (subst choose_sample.simps) (simp add: Let_def)
    qed
  next
    case False
    then show ?thesis using 1 by (subst choose_sample.simps) simp
  qed
qed

lemma init_loop_spec:
  assumes "i < maxlen centers"
    and "length (items centers) = maxlen centers"
    and "lengthVA samples * maxlen centers \<le> length lowerBound"
    and "\<forall>i' < i. \<forall>j < lengthVA samples.
           lowerBound ! (j * maxlen centers + i')
             = to_float (kmeans_distance_proc index (items samples ! j) (items centers ! i'))"
    and "init_loop index samples i centers lowerBound weight r = (centers', lowerBound', weight', r')"
  shows "init_post index samples i centers lowerBound centers' lowerBound'"
  using assms
proof (induction "maxlen centers - i" arbitrary: i centers lowerBound weight r)
  case 0
  then show ?case by simp
next
  case (Suc d)
  let ?nc = "maxlen centers"
  let ?ns = "lengthVA samples"
  let ?D = "kmeans_distance_proc index"
  obtain lb1 w1 sm1 where
    dist: "init_distances index samples centers i (lowerBound, weight, 0) = (lb1, w1, sm1)"
    by (cases "init_distances index samples centers i (lowerBound, weight, 0)") auto
  note sp = init_distances_spec [OF Suc.prems(1) Suc.prems(3) dist]
  have col: "lb1 ! (j * ?nc + i') = to_float (?D (items samples ! j) (items centers ! i'))"
    if "i' \<le> i" "j < ?ns" for i' j
  proof (cases "i' = i")
    case True
    then show ?thesis using sp(2) [OF that(2)] by (simp add: VectorArrayGet_def)
  next
    case False
    then have "i' < i" using that(1) by simp
    moreover have "i' < ?nc" using that(1) Suc.prems(1) by simp
    ultimately show ?thesis using sp(3) [of i' j] False Suc.prems(4) that(2) by simp
  qed
  show ?case
  proof (cases "i + 1 = ?nc")
    case True
    then have "init_loop index samples i centers lowerBound weight r = (centers, lb1, w1, r)"
      using Suc.prems(1) dist by (subst init_loop.simps) simp
    then have eq: "centers' = centers" "lowerBound' = lb1" using Suc.prems(5) by simp_all
    show ?thesis
      unfolding init_post_def eq using True Suc.prems(2) sp(1) col by auto
  next
    case False
    obtain u r1 where rd: "RandomDouble index r = (u, r1)" by (cases "RandomDouble index r")
    define j0 where "j0 = choose_sample w1 ?ns 0 (sm1 * u)"
    define c1 where "c1 = (VectorArraySet centers (i + 1) (VectorArrayGet samples j0))
                            \<lparr>lengthVA := lengthVA centers + 1\<rparr>"
    have j0: "j0 \<le> ?ns - 1" unfolding j0_def by (rule choose_sample_le) simp
    have step: "init_loop index samples i centers lowerBound weight r
                  = init_loop index samples (i + 1) c1 lb1 w1 r1"
      using Suc.prems(1) False dist rd
      by (subst init_loop.simps) (simp add: Let_def j0_def c1_def)
    have c1: "maxlen c1 = ?nc" "length (items c1) = ?nc" "dim c1 = dim centers"
      "itemsize c1 = itemsize centers" "lengthVA c1 = lengthVA centers + 1"
      using Suc.prems(2) by (simp_all add: c1_def VectorArraySet_def)
    have c1_nth: "items c1 ! i' = items centers ! i'" if "i' \<le> i" for i'
      using that by (simp add: c1_def VectorArraySet_def)
    have c1_new: "items c1 ! (i + 1) = items samples ! j0"
      using Suc.prems(1,2) False by (simp add: c1_def VectorArraySet_def VectorArrayGet_def)
    have post: "init_post index samples (i + 1) c1 lb1 centers' lowerBound'"
    proof (rule Suc.hyps(1))
      show "d = maxlen c1 - (i + 1)" using Suc.hyps(2) c1(1) by simp
      show "i + 1 < maxlen c1" using Suc.prems(1) False c1(1) by simp
      show "length (items c1) = maxlen c1" using c1 by simp
      show "?ns * maxlen c1 \<le> length lb1" using sp(1) Suc.prems(3) c1(1) by simp
      show "\<forall>i' < i + 1. \<forall>j < ?ns. lb1 ! (j * maxlen c1 + i')
              = to_float (?D (items samples ! j) (items c1 ! i'))"
        using col c1(1) c1_nth by simp
      show "init_loop index samples (i + 1) c1 lb1 w1 r1 = (centers', lowerBound', weight', r')"
        using step Suc.prems(5) by simp
    qed
    have old: "items centers' ! i' = items centers ! i'" if "i' \<le> i" for i'
      using post that c1_nth unfolding init_post_def by simp
    have new: "\<exists>j. j \<le> ?ns - 1 \<and> items centers' ! i' = items samples ! j"
      if "i < i'" "i' < ?nc" for i'
    proof (cases "i' = i + 1")
      case True
      then have "items centers' ! i' = items samples ! j0"
        using post c1_new unfolding init_post_def by simp
      with j0 show ?thesis by blast
    next
      case False
      then show ?thesis using post that c1(1) unfolding init_post_def by simp
    qed
    show ?thesis
      unfolding init_post_def
      using post c1 sp(1) old new Suc.prems(1) False unfolding init_post_def by auto
  qed
qed


lemma InitCenters_post:
  assumes nc: "0 < maxlen centers"
    and slots: "length (items centers) = maxlen centers"
    and len: "lengthVA samples * maxlen centers \<le> length lowerBound"
    and res: "InitCenters index samples centers lowerBound r = (centers', lowerBound', r')"
  shows "init_post index samples 0
           ((VectorArraySet centers 0
               (VectorArrayGet samples (fst (RandomInt index r) mod lengthVA samples)))
              \<lparr>lengthVA := lengthVA centers + 1\<rparr>)
           lowerBound centers' lowerBound'"
proof -
  obtain n r1 where ri: "RandomInt index r = (n, r1)" by (cases "RandomInt index r")
  define c1 where "c1 = (VectorArraySet centers 0 (VectorArrayGet samples (n mod lengthVA samples)))
                           \<lparr>lengthVA := lengthVA centers + 1\<rparr>"
  obtain c2 lb2 w2 r2 where
    lp: "init_loop index samples 0 c1 lowerBound (replicate (lengthVA samples) (Finite FLT_MAX)) r1
           = (c2, lb2, w2, r2)"
    by (cases "init_loop index samples 0 c1 lowerBound (replicate (lengthVA samples) (Finite FLT_MAX)) r1")
       auto
  have eq: "centers' = c2" "lowerBound' = lb2"
    using res ri lp by (simp_all add: InitCenters_def Let_def c1_def)
  have c1: "maxlen c1 = maxlen centers" "length (items c1) = maxlen centers"
    using slots by (simp_all add: c1_def VectorArraySet_def)
  have "init_post index samples 0 c1 lowerBound c2 lb2"
  proof (rule init_loop_spec [OF _ _ _ _ lp])
    show "0 < maxlen c1" using nc c1 by simp
    show "length (items c1) = maxlen c1" using c1 by simp
    show "lengthVA samples * maxlen c1 \<le> length lowerBound" using len c1 by simp
    show "\<forall>i' < 0. \<forall>j < lengthVA samples. lowerBound ! (j * maxlen c1 + i')
            = to_float (kmeans_distance_proc index (items samples ! j) (items c1 ! i'))" by simp
  qed
  then show ?thesis using ri by (simp add: eq c1_def)
qed


text \<open>
  C4, as amended. On exit from InitCenters, for every sample j and every center i below
  numCenters, the lower bound at j * numCenters + i is the distance from sample j to
  center i stored in a float: the nearest float, infinite when that is beyond FLT_MAX.
  The last column is among them. (A center is not changed once its column is computed.)
\<close>

theorem InitCenters_lowerBound:
  assumes "0 < maxlen centers"
    and "length (items centers) = maxlen centers"
    and "lengthVA samples * maxlen centers \<le> length lowerBound"
    and "InitCenters index samples centers lowerBound r = (centers', lowerBound', r')"
  shows "\<forall>j < lengthVA samples. \<forall>i < maxlen centers.
           lowerBound' ! (j * maxlen centers + i)
             = to_float (kmeans_distance_proc index (VectorArrayGet samples j)
                           (VectorArrayGet centers' i))"
  using InitCenters_post [OF assms]
  by (simp add: init_post_def VectorArraySet_def VectorArrayGet_def)

lemma init_run:
  "InitCenters example_index (example_array 2 [[Finite 0], [Finite 4]])
     (example_array 0 [[Finite 9], [Finite 9]]) [Finite 7, Finite 7, Finite 7, Finite 7] 0
   = (example_array 2 [[Finite 0], [Finite 4]], [Finite 0, Finite 4, Finite 4, Finite 0], 2)"
proof -
  let ?s = "example_array 2 [[Finite 0], [Finite 4]]"
  let ?c1 = "example_array 1 [[Finite 0], [Finite 9]]"
  let ?c2 = "example_array 2 [[Finite 0], [Finite 4]]"
  have t16: "to_float 16 = Finite 16"
    using round_pos_eval [of 4 16] by (simp add: to_float_def round32_def rne_def FLT_MAX_def)
  have ml: "maxlen ?c1 = 2" "maxlen ?c2 = 2" "lengthVA ?s = 2"
    by (simp_all add: example_array_def)
  have d0: "init_distances example_index ?s ?c1 0
              ([Finite 7, Finite 7, Finite 7, Finite 7], [Finite FLT_MAX, Finite FLT_MAX], 0)
              = ([Finite 0, Finite 7, Finite 4, Finite 7], [Finite 0, Finite 16], 16)"
    by (simp add: init_distances_def example_index_def example_array_def VectorArrayGet_def
        line_distance_def first_coord_def FLT_MAX_def to_float_values t16 Let_def upt_rec)
  have ch: "choose_sample [Finite 0, Finite 16] 2 0 8 = 1"
    by (simp add: choose_sample.simps)
  have d1: "init_distances example_index ?s ?c2 1
              ([Finite 0, Finite 7, Finite 4, Finite 7], [Finite 0, Finite 16], 0)
              = ([Finite 0, Finite 4, Finite 4, Finite 0], [Finite 0, Finite 0], 0)"
    by (simp add: init_distances_def example_index_def example_array_def VectorArrayGet_def
        line_distance_def first_coord_def to_float_values t16 Let_def upt_rec)
  have l1: "init_loop example_index ?s 1 ?c2 [Finite 0, Finite 7, Finite 4, Finite 7]
              [Finite 0, Finite 16] 2
              = (?c2, [Finite 0, Finite 4, Finite 4, Finite 0], [Finite 0, Finite 0], 2)"
    by (subst init_loop.simps) (simp add: d1 ml del: One_nat_def)
  have set1: "(VectorArraySet ?c1 1 (VectorArrayGet ?s 1))\<lparr>lengthVA := lengthVA ?c1 + 1\<rparr> = ?c2"
    by (simp add: example_array_def VectorArraySet_def VectorArrayGet_def)
  have rd: "RandomDouble example_index 1 = (1 / 2, 2)"
    by (simp add: example_index_def)
  have l0: "init_loop example_index ?s 0 ?c1 [Finite 7, Finite 7, Finite 7, Finite 7]
              [Finite FLT_MAX, Finite FLT_MAX] 1
              = (?c2, [Finite 0, Finite 4, Finite 4, Finite 0], [Finite 0, Finite 0], 2)"
    by (subst init_loop.simps) (simp add: d0 rd ch set1 l1 ml del: One_nat_def)
  have set0: "(VectorArraySet (example_array 0 [[Finite 9], [Finite 9]]) 0
                 (VectorArrayGet ?s 0))
                \<lparr>lengthVA := lengthVA (example_array 0 [[Finite 9], [Finite 9]]) + 1\<rparr> = ?c1"
    by (simp add: example_array_def VectorArraySet_def VectorArrayGet_def)
  have ri: "RandomInt example_index 0 = (0, 1)"
    by (simp add: example_index_def)
  have rep: "replicate (lengthVA ?s) (Finite FLT_MAX) = [Finite FLT_MAX, Finite FLT_MAX]"
    by (simp add: example_array_def numeral_2_eq_2)
  show ?thesis
    by (simp add: InitCenters_def ri set0 rep l0 del: One_nat_def)
qed

theorem InitCenters_lowerBound_witness:
  "[Finite 0, Finite 4, Finite 4, Finite 0] ! (0 * 2 + 1)
     = to_float (kmeans_distance_proc example_index
         (VectorArrayGet (example_array 2 [[Finite 0], [Finite 4]]) 0)
         (VectorArrayGet (example_array 2 [[Finite 0], [Finite 4]]) 1))"
  using InitCenters_lowerBound [OF _ _ _ init_run, rule_format, of 0 1]
  by (simp add: example_array_def)

text \<open>
  C4 as stated fails: for the samples (1) and (2 ^ - 30) and one center, which is the
  sample (1), the lower bound of the second sample is 1, and its distance to the center
  is \<open>1 - 2 ^ - 30\<close>.
\<close>

theorem InitCenters_rounds_distance:
  "InitCenters example_index close_samples (example_array 0 [[Finite 9]]) [Finite 7, Finite 7] 0
     = (example_array 1 [[Finite 1]], [Finite 0, Finite 1], 1) \<and>
   kmeans_distance_proc example_index (VectorArrayGet close_samples 1)
       (VectorArrayGet (example_array 1 [[Finite 1]]) 0) = 1 - 1 / 2 ^ 30 \<and>
   [Finite 0, Finite 1] ! (1 * 1 + 0) \<noteq> Finite (1 - 1 / 2 ^ 30)"
  by (simp add: InitCenters_def init_loop.simps init_distances_def close_samples_def
      example_index_def example_array_def VectorArrayGet_def VectorArraySet_def
      line_distance_def first_coord_def to_float_values Let_def upt_rec)

section \<open>The loop of ElkanKmeans\<close>


lemma elkan_loop_from:
  "i \<le> 500 \<Longrightarrow>
   \<exists>n. i \<le> n \<and> n \<le> 500 \<and> (i < 500 \<longrightarrow> i < n) \<and>
       elkan_loop index samples i (elkan_pass index samples st0 i) = elkan_pass index samples st0 n \<and>
       (\<forall>k. i \<le> k \<and> k + 1 < n \<longrightarrow> \<not> stops_after index samples st0 k) \<and>
       (n < 500 \<longrightarrow> i < n \<and> stops_after index samples st0 (n - 1))"
proof (induction "500 - i" arbitrary: i)
  case 0
  then have i: "i = 500" by simp
  have "elkan_loop index samples i (elkan_pass index samples st0 i) = elkan_pass index samples st0 i"
    using i by (subst elkan_loop.simps) simp
  then show ?case using i by (intro exI [of _ 500]) auto
next
  case (Suc d)
  then have i: "i < 500" by simp
  obtain changes st' where it:
    "elkan_iteration index samples i (elkan_pass index samples st0 i) = (changes, st')"
    by (cases "elkan_iteration index samples i (elkan_pass index samples st0 i)")
  then have ch: "changes = changes_in_pass index samples st0 i"
    and st': "st' = elkan_pass index samples st0 (Suc i)"
    by (simp_all add: changes_in_pass_def)
  show ?case
  proof (cases "changes = 0 \<and> i \<noteq> 0")
    case True
    then have "elkan_loop index samples i (elkan_pass index samples st0 i) = st'"
      using i it by (subst elkan_loop.simps) simp
    moreover have "stops_after index samples st0 i"
      using True ch by (simp add: stops_after_def)
    ultimately show ?thesis
      using i st' by (intro exI [of _ "Suc i"]) auto
  next
    case False
    then have "elkan_loop index samples i (elkan_pass index samples st0 i)
                 = elkan_loop index samples (i + 1) st'"
      using i it by (subst elkan_loop.simps) auto
    then have step: "elkan_loop index samples i (elkan_pass index samples st0 i)
                 = elkan_loop index samples (i + 1) (elkan_pass index samples st0 (i + 1))"
      using st' by simp
    have ns: "\<not> stops_after index samples st0 i"
      using False ch by (simp add: stops_after_def)
    have "\<exists>n. i + 1 \<le> n \<and> n \<le> 500 \<and> (i + 1 < 500 \<longrightarrow> i + 1 < n) \<and>
       elkan_loop index samples (i + 1) (elkan_pass index samples st0 (i + 1))
         = elkan_pass index samples st0 n \<and>
       (\<forall>k. i + 1 \<le> k \<and> k + 1 < n \<longrightarrow> \<not> stops_after index samples st0 k) \<and>
       (n < 500 \<longrightarrow> i + 1 < n \<and> stops_after index samples st0 (n - 1))"
      using Suc.hyps(2) i by (intro Suc.hyps(1)) simp_all
    then obtain n where n: "i + 1 \<le> n" "n \<le> 500"
      "elkan_loop index samples (i + 1) (elkan_pass index samples st0 (i + 1))
         = elkan_pass index samples st0 n"
      "\<forall>k. i + 1 \<le> k \<and> k + 1 < n \<longrightarrow> \<not> stops_after index samples st0 k"
      "n < 500 \<longrightarrow> i + 1 < n \<and> stops_after index samples st0 (n - 1)"
      by blast
    have "\<forall>k. i \<le> k \<and> k + 1 < n \<longrightarrow> \<not> stops_after index samples st0 k"
    proof (intro allI impI)
      fix k assume k: "i \<le> k \<and> k + 1 < n"
      show "\<not> stops_after index samples st0 k"
      proof (cases "k = i")
        case True
        then show ?thesis using ns by simp
      next
        case False
        then show ?thesis using k n(4) by simp
      qed
    qed
    then show ?thesis
      using n step by (intro exI [of _ n]) auto
  qed
qed

text \<open>
  C5. The loop of ElkanKmeans runs n passes with 2 \<le> n \<le> 500. No pass before the last
  ends with changes = 0 at an index other than 0, and when n < 500 the last pass does:
  the loop stops early exactly at the first pass of index other than 0 that ends with
  changes = 0, and the pass of index 0 never ends it.
\<close>

theorem elkan_loop_passes:
  "\<exists>n. 2 \<le> n \<and> n \<le> 500 \<and>
       elkan_loop index samples 0 st0 = elkan_pass index samples st0 n \<and>
       (\<forall>i. i + 1 < n \<longrightarrow> \<not> stops_after index samples st0 i) \<and>
       (n < 500 \<longrightarrow> stops_after index samples st0 (n - 1))"
proof -
  from elkan_loop_from [of 0 index samples st0]
  obtain n where n: "0 < n" "n \<le> 500"
    "elkan_loop index samples 0 st0 = elkan_pass index samples st0 n"
    "\<forall>k. k + 1 < n \<longrightarrow> \<not> stops_after index samples st0 k"
    "n < 500 \<longrightarrow> stops_after index samples st0 (n - 1)"
    by auto
  have "2 \<le> n"
  proof (cases "n < 500")
    case True
    then have "n - 1 \<noteq> 0" using n(5) by (simp add: stops_after_def)
    then show ?thesis by simp
  next
    case False
    then show ?thesis by simp
  qed
  with n show ?thesis by blast
qed


lemmas elkan_defs = elkan_iteration_def elkan_assign_def elkan_update_def compute_halfcdist_def
  compute_s_def step2_def step3_def reset_means_def sum_samples_def finish_means_def
  compute_newcdist_def step5_def step6_def step7_def halfcdist_index_def int32_def float_sub_def

lemmas example_defs = example_index_def example_array_def line_distance_def first_coord_def
  VectorArrayGet_def VectorArraySet_def VectorArrayInit_def


lemma example_pass_0:
  "elkan_iteration example_index (example_array 2 [[Finite 0], [Finite 4]]) 0 example_state
   = (0, example_state_1)"
  by (simp add: example_state_def example_state_1_def elkan_defs example_defs Let_def upt_rec
      to_float_values FLT_MAX_def)

lemma example_pass_1:
  "fst (elkan_iteration example_index (example_array 2 [[Finite 0], [Finite 4]]) 1 example_state_1) = 0"
  by (simp add: example_state_1_def elkan_defs example_defs Let_def upt_rec to_float_values
      FLT_MAX_def)

lemma example_init:
  "elkan_init example_index (example_array 2 [[Finite 0], [Finite 4]])
     (example_array 0 [[Finite 9]]) 0 = example_state"
  by (simp add: elkan_init_def InitCenters_def init_loop.simps init_distances_def
      initial_assignment_def example_state_def example_defs Let_def upt_rec to_float_values
      FLT_MAX_def)

theorem elkan_loop_passes_witness:
  "elkan_loop example_index (example_array 2 [[Finite 0], [Finite 4]]) 0 example_state
     = elkan_pass example_index (example_array 2 [[Finite 0], [Finite 4]]) example_state 2 \<and>
   \<not> stops_after example_index (example_array 2 [[Finite 0], [Finite 4]]) example_state 0 \<and>
   stops_after example_index (example_array 2 [[Finite 0], [Finite 4]]) example_state 1"
proof -
  let ?S = "example_array 2 [[Finite 0], [Finite 4]]"
  have p1: "elkan_pass example_index ?S example_state 1 = example_state_1"
  proof -
    have "elkan_pass example_index ?S example_state (Suc 0)
            = snd (elkan_iteration example_index ?S 0 example_state)"
      by simp
    then show ?thesis unfolding example_pass_0 by simp
  qed
  have s1: "stops_after example_index ?S example_state 1"
    unfolding stops_after_def changes_in_pass_def p1 using example_pass_1 by simp
  have s0: "\<not> stops_after example_index ?S example_state 0"
    by (simp add: stops_after_def)
  from elkan_loop_passes [of example_index ?S example_state]
  obtain n where n: "2 \<le> n"
    "elkan_loop example_index ?S 0 example_state = elkan_pass example_index ?S example_state n"
    "\<forall>i. i + 1 < n \<longrightarrow> \<not> stops_after example_index ?S example_state i"
    by blast
  have "\<not> 1 + 1 < n" using n(3) s1 by blast
  then have "n = 2" using n(1) by simp
  then show ?thesis using n(2) s0 s1 by simp
qed
section \<open>Updates of arrays in loops\<close>



















section \<open>The bounds of ElkanKmeans\<close>




























end
